theory Spec2Isabelle
  imports Main "HOL-Library.Sublist" "HOL-Library.AList" "HOL-Library.Multiset"
begin

section \<open>AutoTool test controller: the model\<close>

text \<open>
  The theory embeds the test controller of the backend (\<^verbatim>\<open>testController\<close>, the file
  registered by the router under \<^verbatim>\<open>/tests\<close>): the output parser \<^verbatim>\<open>parseTestOutput\<close>, the
  handler \<^verbatim>\<open>runTest\<close> with its background lifecycle, and the handler \<^verbatim>\<open>listTests\<close>.

  A JavaScript string is modelled by the list of its code units, of type \<^typ>\<open>char\<close>:
  the model has the 256 code units of Latin-1.
\<close>

subsection \<open>Strings\<close>

definition ascii_upper :: string where
  "ascii_upper = ''ABCDEFGHIJKLMNOPQRSTUVWXYZ''"

definition ascii_lower :: string where
  "ascii_lower = ''abcdefghijklmnopqrstuvwxyz''"

text \<open>
  \<^verbatim>\<open>String.prototype.toLowerCase\<close>, one code unit at a time. The letters \<^verbatim>\<open>A\<close> to \<^verbatim>\<open>Z\<close> are
  mapped; a code unit above 127 is left alone: JavaScript maps none of them to
  an ASCII letter, and the lowered string is only ever compared with ASCII text.
\<close>

definition toLowerCase_char :: "char \<Rightarrow> char" where
  "toLowerCase_char c = (case map_of (zip ascii_upper ascii_lower) c of Some l \<Rightarrow> l | None \<Rightarrow> c)"

definition toLowerCase :: "string \<Rightarrow> string" where
  "toLowerCase s = map toLowerCase_char s"

text \<open>\<^verbatim>\<open>String.prototype.includes\<close>: the second string occurs in the first, at some position.\<close>

fun str_includes :: "string \<Rightarrow> string \<Rightarrow> bool" where
  "str_includes [] sub = (sub = [])"
| "str_includes (x # xs) sub = (prefix sub (x # xs) \<or> str_includes xs sub)"

text \<open>
  \<^verbatim>\<open>String.prototype.split\<close> with a one-character separator: the pieces between the
  separators, so the empty string gives one empty piece.
\<close>

fun str_split :: "char \<Rightarrow> string \<Rightarrow> string list" where
  "str_split sep [] = [[]]"
| "str_split sep (x # xs) =
     (if x = sep then [] # str_split sep xs
      else (case str_split sep xs of
              [] \<Rightarrow> [[x]]
            | l # ls \<Rightarrow> (x # l) # ls))"

subsection \<open>Regular expressions\<close>

text \<open>
  The two regular expressions of \<^verbatim>\<open>parseTestOutput\<close> are built from literal characters,
  the classes \<^verbatim>\<open>\s\<close> and \<^verbatim>\<open>\d\<close> under \<^verbatim>\<open>+\<close>, one capture group and alternation; both carry
  the flag \<^verbatim>\<open>i\<close>. A pattern is a list of alternatives, an alternative a list of items.
\<close>

datatype char_class = Digit | Space

datatype item =
    Chr char                \<comment> \<open>a literal character\<close>
  | Plus char_class         \<comment> \<open>\<^verbatim>\<open>\d+\<close> or \<^verbatim>\<open>\s+\<close>\<close>
  | CapturePlus char_class  \<comment> \<open>\<^verbatim>\<open>(\d+)\<close>: the group records what it consumed\<close>

type_synonym regexp = "item list list"

definition is_digit :: "char \<Rightarrow> bool" where
  "is_digit c = (c \<in> set ''0123456789'')"

text \<open>
  \<^verbatim>\<open>\s\<close>: tab, line feed, vertical tab, form feed, carriage return, space and the
  no-break space (the white space and line terminators among the first 256 code units).
\<close>

definition is_space :: "char \<Rightarrow> bool" where
  "is_space c = (c \<in> set [CHR 0x09, CHR 0x0A, CHR 0x0B, CHR 0x0C, CHR 0x0D, CHR 0x20, CHR 0xA0])"

fun accepts :: "char_class \<Rightarrow> char \<Rightarrow> bool" where
  "accepts Digit c = is_digit c"
| "accepts Space c = is_space c"

text \<open>
  Under the flag \<^verbatim>\<open>i\<close> two characters match when they canonicalize to the same
  character. Without the flag \<^verbatim>\<open>u\<close> a character above 127 never canonicalizes to an ASCII
  one, so against the ASCII patterns used here this is equality up to ASCII case.
\<close>

definition canonicalize :: "char \<Rightarrow> char" where
  "canonicalize c = (case map_of (zip ascii_lower ascii_upper) c of Some u \<Rightarrow> u | None \<Rightarrow> c)"

fun first_success :: "('a \<Rightarrow> 'b option) \<Rightarrow> 'a list \<Rightarrow> 'b option" where
  "first_success f [] = None"
| "first_success f (k # ks) = (case f k of Some y \<Rightarrow> Some y | None \<Rightarrow> first_success f ks)"

text \<open>
  A \<^verbatim>\<open>+\<close> is greedy: it first takes every character of its class at the start of the
  input, and gives them back one at a time while the rest of the alternative fails.
  These are the numbers of characters it tries, in that order.
\<close>

definition repetitions :: "char_class \<Rightarrow> string \<Rightarrow> nat list" where
  "repetitions cls s = rev [1 ..< Suc (length (takeWhile (accepts cls) s))]"

text \<open>
  Matching one alternative at the start of the input, by backtracking. The result is
  the list of captures of the first match found.
\<close>

fun match_here :: "item list \<Rightarrow> string \<Rightarrow> string list option" where
  "match_here [] s = Some []"
| "match_here (Chr c # r) s =
     (case s of
        [] \<Rightarrow> None
      | x # xs \<Rightarrow> if canonicalize x = canonicalize c then match_here r xs else None)"
| "match_here (Plus cls # r) s =
     first_success (\<lambda>k. match_here r (drop k s)) (repetitions cls s)"
| "match_here (CapturePlus cls # r) s =
     first_success (\<lambda>k. map_option (\<lambda>caps. take k s # caps) (match_here r (drop k s)))
       (repetitions cls s)"

text \<open>
  \<^verbatim>\<open>RegExp.prototype.exec\<close> without the flag \<^verbatim>\<open>g\<close>: the match at the leftmost position that
  has one, the alternatives tried in order; \<^verbatim>\<open>null\<close> when no position has a match.
\<close>

fun regexp_exec :: "regexp \<Rightarrow> string \<Rightarrow> string list option" where
  "regexp_exec re [] = first_success (\<lambda>alt. match_here alt []) re"
| "regexp_exec re (x # xs) =
     (case first_success (\<lambda>alt. match_here alt (x # xs)) re of
        Some caps \<Rightarrow> Some caps
      | None \<Rightarrow> regexp_exec re xs)"

definition regexp_test :: "regexp \<Rightarrow> string \<Rightarrow> bool" where
  "regexp_test re s = (regexp_exec re s \<noteq> None)"

definition literal :: "string \<Rightarrow> item list" where
  "literal s = map Chr s"

text \<open>\<^verbatim>\<open>/===\s+Exit\s+code:\s+(\d+)\s+===/i\<close>\<close>

definition exit_code_regexp :: regexp where
  "exit_code_regexp =
     [literal ''==='' @ [Plus Space] @ literal ''Exit'' @ [Plus Space] @ literal ''code:'' @
      [Plus Space] @ [CapturePlus Digit] @ [Plus Space] @ literal ''==='']"

text \<open>\<^verbatim>\<open>/error|exception|failed|fatal|warning|denied/i\<close>\<close>

definition error_tokens :: "string list" where
  "error_tokens = [''error'', ''exception'', ''failed'', ''fatal'', ''warning'', ''denied'']"

definition error_regexp :: regexp where
  "error_regexp = map literal error_tokens"

subsection \<open>Numbers\<close>

text \<open>
  \<^verbatim>\<open>parseInt(digits, 10)\<close> returns a Number, a double: the integer the digits denote,
  rounded to 53 significant bits (ties to even), and \<^verbatim>\<open>Infinity\<close> when that is \<open>2^1024\<close> or
  more. Up to \<open>2^53\<close> the double is the integer itself. (Beyond 20 significant digits the
  standard lets an implementation round less exactly; V8, which runs the backend, rounds
  as here.)
\<close>

datatype number = Finite int | Infinity

definition decimal :: "string \<Rightarrow> int" where
  "decimal ds = foldl (\<lambda>n d. 10 * n + (of_char d - of_char (CHR ''0''))) 0 ds"

function bit_length :: "int \<Rightarrow> nat" where
  "bit_length n = (if n \<le> 0 then 0 else Suc (bit_length (n div 2)))"
  by pat_completeness auto
termination
  by (relation "measure nat") auto

declare bit_length.simps [simp del]

definition to_number :: "int \<Rightarrow> number" where
  "to_number n =
     (if bit_length n \<le> 53 then Finite n
      else
        let e = bit_length n - 53;
            q = n div 2 ^ e;
            r = n mod 2 ^ e;
            half = 2 ^ (e - 1);
            q' = (if half < r \<or> (r = half \<and> odd q) then q + 1 else q)
        in if 2 ^ 1024 \<le> q' * 2 ^ e then Infinity else Finite (q' * 2 ^ e))"

definition parseInt10 :: "string \<Rightarrow> number" where
  "parseInt10 ds = to_number (decimal ds)"

subsection \<open>parseTestOutput\<close>

record test_results =
  success :: bool
  exitCode :: "number option"
  errorCount :: nat
  errors :: "string list"
  fullOutput :: string

definition parseTestOutput :: "string \<Rightarrow> test_results" where
  "parseTestOutput output =
     (let exitCodeMatch = regexp_exec exit_code_regexp output;
          exitCode = (case exitCodeMatch of
                        Some caps \<Rightarrow> Some (parseInt10 (hd caps))
                      | None \<Rightarrow> None);
          errorLines = filter (regexp_test error_regexp) (str_split (CHR 0x0A) output);
          success = (exitCode = Some (Finite 0) \<and> length errorLines = 0)
      in \<lparr> success = success,
           exitCode = exitCode,
           errorCount = length errorLines,
           errors = errorLines,
           fullOutput = output \<rparr>)"

subsection \<open>Choosing the Docker image\<close>

text \<open>
  The object literal \<^verbatim>\<open>osMap\<close> of \<^verbatim>\<open>runTest\<close>. Within a family the releases are listed
  oldest first.
\<close>

definition osMap :: "(string \<times> string) list" where
  "osMap =
     [(''windows-2016'', ''mcr.microsoft.com/windows/servercore:ltsc2016''),
      (''windows-2019'', ''mcr.microsoft.com/windows/servercore:ltsc2019''),
      (''windows-2022'', ''mcr.microsoft.com/windows/servercore:ltsc2022''),
      (''ubuntu-20.04'', ''ubuntu:20.04''),
      (''ubuntu-22.04'', ''ubuntu:22.04''),
      (''centos-7'', ''centos:7''),
      (''centos-8'', ''quay.io/centos/centos:stream8''),
      (''debian-10'', ''debian:10''),
      (''debian-11'', ''debian:11''),
      (''rhel-8'', ''registry.access.redhat.com/ubi8/ubi''),
      (''rhel-9'', ''registry.access.redhat.com/ubi9/ubi'')]"

text \<open>
  \<^verbatim>\<open>osMap[key]\<close> is a property lookup on a plain object: a key that is not in the literal
  is looked up in \<^verbatim>\<open>Object.prototype\<close>, whose properties are functions or objects, all
  truthy and none a string. \<open>Inherited key\<close> stands for such a value.
\<close>

datatype image_value = ImageRef string | Inherited string

definition object_prototype :: "string list" where
  "object_prototype =
     [''constructor'', ''__defineGetter__'', ''__defineSetter__'', ''hasOwnProperty'',
      ''__lookupGetter__'', ''__lookupSetter__'', ''isPrototypeOf'', ''propertyIsEnumerable'',
      ''toString'', ''valueOf'', ''__proto__'', ''toLocaleString'']"

definition osMap_get :: "string \<Rightarrow> image_value option" where
  "osMap_get key =
     (case map_of osMap key of
        Some v \<Rightarrow> Some (ImageRef v)
      | None \<Rightarrow> if key \<in> set object_prototype then Some (Inherited key) else None)"

text \<open>
  A value read from the request body is absent (\<open>None\<close>) or a string; \<^verbatim>\<open>!x\<close> holds of an
  absent value and of the empty string.
\<close>

definition falsy :: "string option \<Rightarrow> bool" where
  "falsy x = (x = None \<or> x = Some [])"

text \<open>Lines 116 to 129 of \<^verbatim>\<open>runTest\<close>: the default image of an unknown identifier.\<close>

definition default_image :: "string \<Rightarrow> string" where
  "default_image os =
     (if str_includes (toLowerCase os) ''windows'' then
        ''mcr.microsoft.com/windows/servercore:ltsc2022''
      else if str_includes (toLowerCase os) ''ubuntu'' then
        ''ubuntu:22.04''
      else if str_includes (toLowerCase os) ''centos'' then
        ''quay.io/centos/centos:stream8''
      else if str_includes (toLowerCase os) ''debian'' then
        ''debian:11''
      else if str_includes (toLowerCase os) ''rhel'' then
        ''registry.access.redhat.com/ubi8/ubi''
      else ''ubuntu:22.04'')"

text \<open>Lines 97 to 131: the image of a run, from the operating system and \<^verbatim>\<open>customImage\<close>.\<close>

definition dockerImage :: "string \<Rightarrow> string option \<Rightarrow> image_value" where
  "dockerImage os customImage =
     (case customImage of
        Some c \<Rightarrow>
          if c \<noteq> [] then ImageRef c
          else (case osMap_get (toLowerCase os) of
                  Some img \<Rightarrow> img
                | None \<Rightarrow> ImageRef (default_image os))
      | None \<Rightarrow>
          (case osMap_get (toLowerCase os) of
             Some img \<Rightarrow> img
           | None \<Rightarrow> ImageRef (default_image os)))"

text \<open>
  For comparison with the specification: the families it names, and the image the table
  gives the newest release of a family (the last entry whose key starts with its name).
\<close>

definition families :: "string list" where
  "families = [''windows'', ''ubuntu'', ''centos'', ''debian'', ''rhel'']"

definition newest_image :: "string \<Rightarrow> string" where
  "newest_image family = snd (last (filter (\<lambda>(key, img). prefix family key) osMap))"

subsection \<open>The request, the run record and the world outside\<close>

text \<open>The fields \<^verbatim>\<open>runTest\<close> reads from \<^verbatim>\<open>req.body\<close>.\<close>

record request =
  req_scriptId :: "string option"
  req_scriptContent :: "string option"
  req_scriptType :: "string option"
  req_operatingSystem :: "string option"
  req_customImage :: "string option"

text \<open>
  \<^verbatim>\<open>testMetadata\<close>, the record of a run. A time is the number of milliseconds \<^verbatim>\<open>new Date()\<close>
  stands for; the record holds its ISO rendering, which \<^verbatim>\<open>new Date(...)\<close> reads back to the
  same number. A field that the code has not set yet is \<open>None\<close>.
\<close>

record metadata =
  test_id :: string
  scriptId :: "string option"
  operatingSystem :: string
  startTime :: int
  status :: string
  containerName :: string
  containerImage :: "image_value option"
  containerId :: "string option"
  endTime :: "int option"
  meta_exitCode :: "int option"
  meta_success :: "bool option"
  meta_errorCount :: "nat option"
  error :: "string option"

text \<open>
  The file system under the results directory: a path is the list of its components,
  a node a directory or a file. A JSON file holds the value that was written to it:
  a record, a verdict, or \<^verbatim>\<open>null\<close>.
\<close>

type_synonym path = "string list"

datatype content = Text string | Metadata metadata | Results test_results | Null

datatype node = Directory | File content

type_synonym fs = "(path \<times> node) list"

text \<open>
  \<^verbatim>\<open>path.join\<close> of a directory and a name: the name is cut at the separators, an empty
  piece or a dot changes nothing, two dots go up one directory.
\<close>

fun path_segment :: "path \<Rightarrow> string \<Rightarrow> path" where
  "path_segment p seg =
     (if seg = [] \<or> seg = ''.'' then p else if seg = ''..'' then butlast p else p @ [seg])"

definition path_join :: "path \<Rightarrow> string \<Rightarrow> path" where
  "path_join base name = foldl path_segment base (str_split (CHR ''/'') name)"

text \<open>
  What the world outside answers during one call of \<^verbatim>\<open>runTest\<close>: the identifier and the
  clock, which calls of \<^verbatim>\<open>fs\<close> throw (by the source line of the call, with the message of
  the error), and what the Docker daemon and the container do. An operation of Docker
  fails with the message of its error (\<open>Inl\<close>) or succeeds.
\<close>

record env =
  testResultsDir :: path
  uuidv4 :: string
  now_start :: int
  now_end :: int
  fs_throws :: "nat \<Rightarrow> string option"
  createContainer :: "string + string"
  container_start :: "string option"
  container_attach :: "string + string list"
  container_wait :: "string + int"
  container_logs :: "string + string"
  container_remove :: "string option"
  script_output_log :: "string option"

text \<open>
  \<open>createContainer\<close> gives the id of the new container; \<open>container_attach\<close> the chunks the
  stream delivers before \<^verbatim>\<open>container.wait()\<close> returns; \<open>container_wait\<close> the status code;
  \<open>script_output_log\<close> what the container has written to \<^verbatim>\<open>output/script_output.log\<close> in the
  mounted directory, if it has written that file. Its other writes into the directory are
  not modelled.

  The state of a run: the variables of \<^verbatim>\<open>runTest\<close>, the files, the containers that exist,
  and the error an interrupted block has thrown.
\<close>

record world =
  files :: fs
  containers :: "string list"

record run_state = world +
  testMetadata :: metadata
  logs :: string
  exitCode_wait :: int
  scriptOutput :: string
  testResults :: "test_results option"
  thrown :: "string option"

datatype body =
    ErrorBody string            \<comment> \<open>\<^verbatim>\<open>{status: 'error', message}\<close>\<close>
  | StartedBody metadata        \<comment> \<open>\<^verbatim>\<open>{status: 'success', message: 'Test started', test}\<close>\<close>
  | ListBody nat "metadata list" \<comment> \<open>\<^verbatim>\<open>{status: 'success', count, tests}\<close>\<close>

datatype response = Response nat body

subsection \<open>Values written as JSON\<close>

text \<open>
  \<^verbatim>\<open>fs.writeJsonSync\<close> and \<^verbatim>\<open>res.json\<close> write a value with \<^verbatim>\<open>JSON.stringify\<close>: a property whose
  value is a function is left out, an object without enumerable properties of its own is
  written as \<^verbatim>\<open>{}\<close>, and a number that is not finite is written as \<^verbatim>\<open>null\<close>. Of the values
  inherited from \<^verbatim>\<open>Object.prototype\<close> the one of \<^verbatim>\<open>__proto__\<close> is the prototype itself, an
  object; the others are functions. In a record that was written, \<open>Inherited ''__proto__''\<close>
  stands for \<^verbatim>\<open>{}\<close>, and a field that was left out is \<open>None\<close>, as \<^verbatim>\<open>null\<close> is.
\<close>

definition stringify_image :: "image_value \<Rightarrow> image_value option" where
  "stringify_image img =
     (case img of
        ImageRef name \<Rightarrow> Some (ImageRef name)
      | Inherited key \<Rightarrow> if key = ''__proto__'' then Some (Inherited key) else None)"

definition stringify_metadata :: "metadata \<Rightarrow> metadata" where
  "stringify_metadata m =
     m\<lparr>containerImage :=
         (case containerImage m of None \<Rightarrow> None | Some img \<Rightarrow> stringify_image img)\<rparr>"

definition stringify_results :: "test_results \<Rightarrow> test_results" where
  "stringify_results r =
     r\<lparr>exitCode := (case exitCode r of Some Infinity \<Rightarrow> None | code \<Rightarrow> code)\<rparr>"

subsection \<open>Calls of the file system\<close>

definition existsSync :: "fs \<Rightarrow> path \<Rightarrow> bool" where
  "existsSync fs p = (map_of fs p \<noteq> None)"

definition ensureDir :: "path \<Rightarrow> fs \<Rightarrow> fs" where
  "ensureDir p fs = (if existsSync fs p then fs else AList.update p Directory fs)"

definition writeFile :: "path \<Rightarrow> content \<Rightarrow> fs \<Rightarrow> fs" where
  "writeFile p c fs = AList.update p (File c) fs"

text \<open>
  A call of \<^verbatim>\<open>fs\<close> at a source line: it throws when the world says so, and has its effect
  otherwise.
\<close>

definition fs_call :: "env \<Rightarrow> nat \<Rightarrow> (fs \<Rightarrow> fs) \<Rightarrow> run_state \<Rightarrow> run_state" where
  "fs_call e line effect s =
     (case fs_throws e line of
        Some msg \<Rightarrow> s\<lparr>thrown := Some msg\<rparr>
      | None \<Rightarrow> s\<lparr>files := effect (files s)\<rparr>)"

text \<open>
  Statements in sequence inside a \<^verbatim>\<open>try\<close> block: once one has thrown, the rest is skipped.
\<close>

definition guarded :: "(run_state \<Rightarrow> run_state) \<Rightarrow> run_state \<Rightarrow> run_state" where
  "guarded step s = (if thrown s = None then step s else s)"

definition run_steps :: "(run_state \<Rightarrow> run_state) list \<Rightarrow> run_state \<Rightarrow> run_state" where
  "run_steps steps s = fold guarded steps s"

subsection \<open>runTest\<close>

definition isWindows :: "string \<Rightarrow> bool" where
  "isWindows os = str_includes (toLowerCase os) ''windows''"

text \<open>Line 67.\<close>

definition scriptFileName :: "string option \<Rightarrow> string \<Rightarrow> string" where
  "scriptFileName scriptType os =
     ''test-script.'' @
       (case scriptType of
          Some t \<Rightarrow> if t \<noteq> [] then t else if isWindows os then ''ps1'' else ''sh''
        | None \<Rightarrow> if isWindows os then ''ps1'' else ''sh'')"

definition testDir :: "env \<Rightarrow> path" where
  "testDir e = path_join (testResultsDir e) (uuidv4 e)"

definition metadataPath :: "env \<Rightarrow> path" where
  "metadataPath e = path_join (testDir e) ''metadata.json''"

definition resultsPath :: "env \<Rightarrow> path" where
  "resultsPath e = path_join (testDir e) ''results.json''"

definition entrypointPath :: "env \<Rightarrow> path" where
  "entrypointPath e = path_join (testDir e) ''entrypoint.sh''"

definition containerLogPath :: "env \<Rightarrow> path" where
  "containerLogPath e = path_join (path_join (testDir e) ''output'') ''container_logs.txt''"

definition outputLogPath :: "env \<Rightarrow> path" where
  "outputLogPath e = path_join (path_join (testDir e) ''output'') ''script_output.log''"

text \<open>Lines 141 to 161: the wrapper that runs the script in a Linux container.\<close>

definition unlines :: "string list \<Rightarrow> string" where
  "unlines ls = concat (map (\<lambda>l. l @ [CHR 0x0A]) ls)"

definition entrypointContent :: "string \<Rightarrow> string" where
  \<open>entrypointContent fileName = unlines
     [''#!/bin/bash'',
      ''set -e'',
      [],
      ''# Make script executable'',
      ''chmod +x /scripts/'' @ fileName,
      [],
      ''# Create output directory if it doesn'' @ [CHR 0x27] @ ''t exist'',
      ''mkdir -p /scripts/output'',
      [],
      ''# Execute script and capture output'',
      ''{'',
      ''  echo "=== Running test script: /scripts/'' @ fileName @ '' ==="'',
      ''  echo "=== Start time: $(date) ==="'',
      ''  time /scripts/'' @ fileName @ '' 2>&1'',
      ''  EXIT_CODE=$?'',
      ''  echo "=== End time: $(date) ==="'',
      ''  echo "=== Exit code: ${EXIT_CODE} ==="'',
      ''} | tee /scripts/output/script_output.log'',
      [],
      ''exit ${EXIT_CODE}'']\<close>

text \<open>Lines 73 to 81: the record as it is first built, in the state the run starts from.\<close>

definition start_state ::
  "env \<Rightarrow> string option \<Rightarrow> string \<Rightarrow> string option \<Rightarrow> world \<Rightarrow> run_state" where
  "start_state e sid os customImage w =
     \<lparr> files = files w,
       containers = containers w,
       testMetadata =
         \<lparr> test_id = uuidv4 e,
           scriptId = sid,
           operatingSystem = os,
           startTime = now_start e,
           status = ''running'',
           containerName = ''autotool-test-'' @ take 8 (uuidv4 e),
           containerImage =
             (case customImage of
                Some c \<Rightarrow> if c \<noteq> [] then Some (ImageRef c) else None
              | None \<Rightarrow> None),
           containerId = None,
           endTime = None,
           meta_exitCode = None,
           meta_success = None,
           meta_errorCount = None,
           error = None \<rparr>,
       logs = [],
       exitCode_wait = 0,
       scriptOutput = [],
       testResults = None,
       thrown = None \<rparr>"

definition write_metadata :: "env \<Rightarrow> nat \<Rightarrow> run_state \<Rightarrow> run_state" where
  "write_metadata e line s =
     fs_call e line
       (writeFile (metadataPath e) (Metadata (stringify_metadata (testMetadata s)))) s"

text \<open>Lines 61 to 84: the run directory, the script and the first write of the record.\<close>

definition prepare :: "env \<Rightarrow> string \<Rightarrow> string \<Rightarrow> (run_state \<Rightarrow> run_state) list" where
  "prepare e scriptContent fileName =
     [fs_call e 63 (ensureDir (testDir e)),
      fs_call e 64 (ensureDir (path_join (testDir e) ''output'')),
      fs_call e 69 (writeFile (path_join (testDir e) fileName) (Text scriptContent)),
      fs_call e 70 (\<lambda>fs. fs),
      write_metadata e 84]"

text \<open>
  The background function, lines 94 to 289. Its statements up to the first \<^verbatim>\<open>await\<close> run
  before \<^verbatim>\<open>runTest\<close> answers the request. The notifications it sends over the socket
  (\<^verbatim>\<open>io.emit\<close>) read the record and change nothing: they are left out.
\<close>

definition resolve_image :: "string \<Rightarrow> string option \<Rightarrow> run_state \<Rightarrow> run_state" where
  "resolve_image os customImage s =
     s\<lparr>testMetadata := (testMetadata s)
          \<lparr>containerImage := Some (dockerImage os customImage)\<rparr>\<rparr>"

definition write_entrypoint :: "env \<Rightarrow> string \<Rightarrow> string \<Rightarrow> (run_state \<Rightarrow> run_state) list" where
  "write_entrypoint e os fileName =
     (if isWindows os then []
      else [fs_call e 162 (writeFile (entrypointPath e) (Text (entrypointContent fileName))),
            fs_call e 163 (\<lambda>fs. fs)])"

definition before_await ::
  "env \<Rightarrow> string \<Rightarrow> string option \<Rightarrow> string \<Rightarrow> (run_state \<Rightarrow> run_state) list" where
  "before_await e os customImage fileName =
     [resolve_image os customImage, write_metadata e 135] @
     write_entrypoint e os fileName"

definition create_container :: "env \<Rightarrow> run_state \<Rightarrow> run_state" where
  "create_container e s =
     (case createContainer e of
        Inl msg \<Rightarrow> s\<lparr>thrown := Some msg\<rparr>
      | Inr cid \<Rightarrow>
          s\<lparr>containers := cid # containers s,
            testMetadata := (testMetadata s)\<lparr>containerId := Some cid\<rparr>\<rparr>)"

text \<open>Once started the container runs, and leaves what it writes in the mounted directory.\<close>

definition start_container :: "env \<Rightarrow> run_state \<Rightarrow> run_state" where
  "start_container e s =
     (case container_start e of
        Some msg \<Rightarrow> s\<lparr>thrown := Some msg\<rparr>
      | None \<Rightarrow>
          (case script_output_log e of
             Some text \<Rightarrow> s\<lparr>files := writeFile (outputLogPath e) (Text text) (files s)\<rparr>
           | None \<Rightarrow> s))"

definition attach_stream :: "env \<Rightarrow> run_state \<Rightarrow> run_state" where
  "attach_stream e s =
     (case container_attach e of
        Inl msg \<Rightarrow> s\<lparr>thrown := Some msg\<rparr>
      | Inr chunks \<Rightarrow> s\<lparr>logs := concat chunks\<rparr>)"

definition wait_container :: "env \<Rightarrow> run_state \<Rightarrow> run_state" where
  "wait_container e s =
     (case container_wait e of
        Inl msg \<Rightarrow> s\<lparr>thrown := Some msg\<rparr>
      | Inr code \<Rightarrow> s\<lparr>exitCode_wait := code\<rparr>)"

text \<open>Lines 225 to 231.\<close>

definition fetch_logs :: "env \<Rightarrow> run_state \<Rightarrow> run_state" where
  "fetch_logs e s =
     (if logs s = [] then
        (case container_logs e of
           Inl msg \<Rightarrow> s\<lparr>thrown := Some msg\<rparr>
         | Inr text \<Rightarrow> s\<lparr>logs := text\<rparr>)
      else s)"

definition save_logs :: "env \<Rightarrow> run_state \<Rightarrow> run_state" where
  "save_logs e s = fs_call e 234 (writeFile (containerLogPath e) (Text (logs s))) s"

text \<open>
  Lines 237 to 243. Reading the log throws when the world says so and when the path is
  a directory; so does, in this model, a JSON file under that name, which no run writes.
\<close>

definition read_script_output :: "env \<Rightarrow> run_state \<Rightarrow> run_state" where
  "read_script_output e s =
     (if existsSync (files s) (outputLogPath e) then
        (case fs_throws e 240 of
           Some msg \<Rightarrow> s\<lparr>thrown := Some msg\<rparr>
         | None \<Rightarrow>
             (case map_of (files s) (outputLogPath e) of
                Some (File (Text text)) \<Rightarrow> s\<lparr>scriptOutput := text\<rparr>
              | _ \<Rightarrow> s\<lparr>thrown := Some ''EISDIR: illegal operation on a directory, read''\<rparr>))
      else s\<lparr>scriptOutput := logs s\<rparr>)"

text \<open>Lines 246 to 253.\<close>

definition classify :: "env \<Rightarrow> run_state \<Rightarrow> run_state" where
  "classify e s =
     (let results = parseTestOutput (scriptOutput s)
      in s\<lparr>testResults := Some results,
           testMetadata := (testMetadata s)
             \<lparr>status := ''completed'',
              endTime := Some (now_end e),
              meta_exitCode := Some (exitCode_wait s),
              meta_success := Some (success results),
              meta_errorCount := Some (errorCount results)\<rparr>\<rparr>)"

definition write_results :: "env \<Rightarrow> run_state \<Rightarrow> run_state" where
  "write_results e s =
     (case testResults s of
        Some results \<Rightarrow>
          fs_call e 256 (writeFile (resultsPath e) (Results (stringify_results results))) s
      | None \<Rightarrow> s)"

text \<open>Lines 259 to 263: an error of the removal is logged, and nothing else happens.\<close>

definition remove_container :: "env \<Rightarrow> run_state \<Rightarrow> run_state" where
  "remove_container e s =
     (case container_remove e of
        Some msg \<Rightarrow> s
      | None \<Rightarrow>
          (case containerId (testMetadata s) of
             Some cid \<Rightarrow> s\<lparr>containers := removeAll cid (containers s)\<rparr>
           | None \<Rightarrow> s))"

definition after_await :: "env \<Rightarrow> (run_state \<Rightarrow> run_state) list" where
  "after_await e =
     [create_container e, write_metadata e 182, start_container e, attach_stream e,
      wait_container e, fetch_logs e, save_logs e, read_script_output e, classify e,
      write_metadata e 255, write_results e, remove_container e]"

text \<open>
  Lines 272 to 288, the \<^verbatim>\<open>catch\<close> of the background function. When its own write throws,
  the promise of the background function is rejected, which \<^verbatim>\<open>runTest\<close> logs.
\<close>

definition catch_block :: "env \<Rightarrow> run_state \<Rightarrow> run_state" where
  "catch_block e s =
     (case thrown s of
        None \<Rightarrow> s
      | Some msg \<Rightarrow>
          write_metadata e 280
            (s\<lparr>thrown := None,
               testMetadata := (testMetadata s)
                 \<lparr>status := ''failed'', endTime := Some (now_end e), error := Some msg\<rparr>\<rparr>))"

text \<open>The state in which the background function ends.\<close>

definition background ::
  "env \<Rightarrow> string \<Rightarrow> string option \<Rightarrow> string \<Rightarrow> run_state \<Rightarrow> run_state" where
  "background e os customImage fileName s =
     catch_block e
       (run_steps (before_await e os customImage fileName @ after_await e) s)"

text \<open>
  \<^verbatim>\<open>runTest\<close> gives its response, the world as it is when the response is sent, and the
  world as it is when the background function has ended. The record in the response is
  the record as \<^verbatim>\<open>res.json\<close> writes it.
\<close>

record outcome =
  response :: response
  responded :: world
  settled :: world

definition world_of :: "run_state \<Rightarrow> world" where
  "world_of s = \<lparr> files = files s, containers = containers s \<rparr>"

definition rejected :: "nat \<Rightarrow> string \<Rightarrow> world \<Rightarrow> outcome" where
  "rejected code message w =
     \<lparr> response = Response code (ErrorBody message), responded = w, settled = w \<rparr>"

definition accepted ::
  "env \<Rightarrow> string option \<Rightarrow> string \<Rightarrow> string option \<Rightarrow> string \<Rightarrow> string option \<Rightarrow>
     world \<Rightarrow> outcome" where
  "accepted e sid scriptContent scriptType os customImage w =
     (let fileName = scriptFileName scriptType os;
          s0 = run_steps (prepare e scriptContent fileName)
                 (start_state e sid os customImage w)
      in case thrown s0 of
           Some msg \<Rightarrow> rejected 500 msg (world_of s0)
         | None \<Rightarrow>
             let s1 = run_steps (before_await e os customImage fileName) s0;
                 s1' = catch_block e s1
             in \<lparr> response = Response 202 (StartedBody (stringify_metadata (testMetadata s1'))),
                  responded = world_of s1',
                  settled = world_of (background e os customImage fileName s0) \<rparr>)"

definition runTest :: "env \<Rightarrow> request \<Rightarrow> world \<Rightarrow> outcome" where
  "runTest e r w =
     (case req_scriptContent r of
        None \<Rightarrow> rejected 400 ''Script content is required'' w
      | Some scriptContent \<Rightarrow>
          if scriptContent = [] then rejected 400 ''Script content is required'' w
          else
            (case req_operatingSystem r of
               None \<Rightarrow> rejected 400 ''Operating system is required'' w
             | Some os \<Rightarrow>
                 if os = [] then rejected 400 ''Operating system is required'' w
                 else accepted e (req_scriptId r) scriptContent (req_scriptType r)
                        os (req_customImage r) w))"

subsection \<open>listTests\<close>











subsection \<open>Notions for stating the properties of runTest\<close>

text \<open>The record a response carries, when it is the response to an accepted submission.\<close>

definition started_record :: "response \<Rightarrow> metadata option" where
  "started_record resp =
     (case resp of Response code (StartedBody m) \<Rightarrow> Some m | _ \<Rightarrow> None)"

definition response_code :: "response \<Rightarrow> nat" where
  "response_code resp = (case resp of Response code b \<Rightarrow> code)"

text \<open>The record of the run, as the file \<^verbatim>\<open>metadata.json\<close> of its directory holds it.\<close>

definition persisted_record :: "env \<Rightarrow> world \<Rightarrow> metadata option" where
  "persisted_record e w =
     (case map_of (files w) (metadataPath e) of
        Some (File (Metadata m)) \<Rightarrow> Some m
      | _ \<Rightarrow> None)"

text \<open>The verdict of the run, as the file \<^verbatim>\<open>results.json\<close> of its directory holds it.\<close>

definition persisted_results :: "env \<Rightarrow> world \<Rightarrow> test_results option" where
  "persisted_results e w =
     (case map_of (files w) (resultsPath e) of
        Some (File (Results r)) \<Rightarrow> Some r
      | _ \<Rightarrow> None)"

text \<open>A submission with both required inputs.\<close>

definition valid :: "request \<Rightarrow> bool" where
  "valid r = (\<not> falsy (req_scriptContent r) \<and> \<not> falsy (req_operatingSystem r))"

text \<open>None of the calls of \<^verbatim>\<open>fs\<close> at these source lines throws.\<close>

definition fs_succeeds :: "env \<Rightarrow> nat list \<Rightarrow> bool" where
  "fs_succeeds e lines = list_all (\<lambda>line. fs_throws e line = None) lines"

text \<open>
  The state at the end of the \<^verbatim>\<open>try\<close> block of the background function, before its \<^verbatim>\<open>catch\<close>,
  for a submission that was accepted: \<open>thrown\<close> tells whether a statement of the block
  has thrown, and what.
\<close>

definition tried :: "env \<Rightarrow> request \<Rightarrow> world \<Rightarrow> run_state" where
  "tried e r w =
     (case (req_scriptContent r, req_operatingSystem r) of
        (Some scriptContent, Some os) \<Rightarrow>
          (let fileName = scriptFileName (req_scriptType r) os
           in run_steps (before_await e os (req_customImage r) fileName @ after_await e)
                (run_steps (prepare e scriptContent fileName)
                   (start_state e (req_scriptId r) os (req_customImage r) w)))
      | _ \<Rightarrow> start_state e (req_scriptId r) [] (req_customImage r) w)"

text \<open>
  The calls of the \<^verbatim>\<open>try\<close> block of the background function that can throw, in the order
  of the source, each with the message of the error it throws in this world, if it
  throws: the writes of the file system by their lines, the operations of Docker, the
  fetch of the logs when the stream has delivered nothing, and the read of the log file
  when there is one. The removal of the container has a \<^verbatim>\<open>try\<close> of its own and is not among
  them. \<open>first_error\<close> is the error of the first call that throws.
\<close>

definition failure :: "string + 'a \<Rightarrow> string option" where
  "failure answer = (case answer of Inl msg \<Rightarrow> Some msg | Inr result \<Rightarrow> None)"

fun first_error :: "string option list \<Rightarrow> string option" where
  "first_error [] = None"
| "first_error (None # calls) = first_error calls"
| "first_error (Some msg # calls) = Some msg"

text \<open>The path the script of a submission is written to.\<close>

definition scriptPath :: "env \<Rightarrow> request \<Rightarrow> path" where
  "scriptPath e r =
     path_join (testDir e)
       (scriptFileName (req_scriptType r)
          (case req_operatingSystem r of Some os \<Rightarrow> os | None \<Rightarrow> []))"

text \<open>
  What is at the path of the log file when line 239 looks for it: what the container has
  written; or else the script, when the script type makes that path the path of the
  script; or else what was there before the run.
\<close>

definition log_file :: "env \<Rightarrow> request \<Rightarrow> world \<Rightarrow> node option" where
  "log_file e r w =
     (case script_output_log e of
        Some written \<Rightarrow> Some (File (Text written))
      | None \<Rightarrow>
          if scriptPath e r = outputLogPath e then
            map_option (\<lambda>scriptContent. File (Text scriptContent)) (req_scriptContent r)
          else map_of (files w) (outputLogPath e))"

definition lifecycle_calls :: "env \<Rightarrow> request \<Rightarrow> world \<Rightarrow> string option list" where
  "lifecycle_calls e r w =
     [fs_throws e 135] @
     (if isWindows (case req_operatingSystem r of Some os \<Rightarrow> os | None \<Rightarrow> []) then []
      else [fs_throws e 162, fs_throws e 163]) @
     [failure (createContainer e), fs_throws e 182, container_start e,
      failure (container_attach e), failure (container_wait e)] @
     (case container_attach e of
        Inl msg \<Rightarrow> []
      | Inr chunks \<Rightarrow> if concat chunks = [] then [failure (container_logs e)] else []) @
     [fs_throws e 234] @
     (case log_file e r w of
        None \<Rightarrow> []
      | Some (File (Text written)) \<Rightarrow> [fs_throws e 240]
      | Some other \<Rightarrow>
          [fs_throws e 240, Some ''EISDIR: illegal operation on a directory, read'']) @
     [fs_throws e 255, fs_throws e 256]"

text \<open>
  A world and a submission to evaluate the model on: the results directory is empty,
  every call succeeds, the script prints to the stream and exits with 0, and the
  container leaves an empty log file.
\<close>

definition example_env :: env where
  "example_env =
     \<lparr> testResultsDir = [''srv'', ''test-results''],
       uuidv4 = ''123e4567-e89b-42d3-a456-426614174000'',
       now_start = 1000,
       now_end = 2000,
       fs_throws = (\<lambda>line. None),
       createContainer = Inr ''c0ffee'',
       container_start = None,
       container_attach = Inr [''=== Exit code: 0 ===''],
       container_wait = Inr 0,
       container_logs = Inr [],
       container_remove = None,
       script_output_log = Some [] \<rparr>"

text \<open>The same world, in which the call of \<^verbatim>\<open>fs\<close> at one source line throws.\<close>

definition fs_failing :: "nat \<Rightarrow> string \<Rightarrow> env \<Rightarrow> env" where
  "fs_failing line msg e = e\<lparr>fs_throws := (fs_throws e)(line := Some msg)\<rparr>"

definition example_request :: request where
  "example_request =
     \<lparr> req_scriptId = None,
       req_scriptContent = Some ''echo hi'',
       req_scriptType = None,
       req_operatingSystem = Some ''ubuntu-22.04'',
       req_customImage = None \<rparr>"

definition example_world :: world where
  "example_world = \<lparr> files = [([''srv'', ''test-results''], Directory)], containers = [] \<rparr>"



subsection \<open>What the regular expressions denote\<close>

text \<open>
  The language of an alternative, for stating what the matcher finds: \<open>denotes r m caps\<close>
  says that the alternative \<open>r\<close> matches exactly the text \<open>m\<close>, its groups capturing \<open>caps\<close>.
\<close>

fun denotes :: "item list \<Rightarrow> string \<Rightarrow> string list \<Rightarrow> bool" where
  "denotes [] m caps = (m = [] \<and> caps = [])"
| "denotes (Chr c # r) m caps =
     (\<exists>x m'. m = x # m' \<and> canonicalize x = canonicalize c \<and> denotes r m' caps)"
| "denotes (Plus cls # r) m caps =
     (\<exists>w m'. m = w @ m' \<and> w \<noteq> [] \<and> list_all (accepts cls) w \<and> denotes r m' caps)"
| "denotes (CapturePlus cls # r) m caps =
     (\<exists>w m' caps'. m = w @ m' \<and> w \<noteq> [] \<and> list_all (accepts cls) w \<and> caps = w # caps' \<and>
        denotes r m' caps')"

text \<open>
  An alternative is deterministic when whatever follows a \<^verbatim>\<open>+\<close> starts outside the class
  of the \<^verbatim>\<open>+\<close>: then a text has at most one match at a position, and backtracking
  changes nothing.
\<close>

fun starts_outside :: "char_class \<Rightarrow> item list \<Rightarrow> bool" where
  "starts_outside cls [] = False"
| "starts_outside cls (Chr c # r) = (\<forall>x. canonicalize x = canonicalize c \<longrightarrow> \<not> accepts cls x)"
| "starts_outside cls (Plus cls' # r) = (\<forall>x. accepts cls' x \<longrightarrow> \<not> accepts cls x)"
| "starts_outside cls (CapturePlus cls' # r) = (\<forall>x. accepts cls' x \<longrightarrow> \<not> accepts cls x)"

fun deterministic :: "item list \<Rightarrow> bool" where
  "deterministic [] = True"
| "deterministic (Chr c # r) = deterministic r"
| "deterministic (Plus cls # r) = (starts_outside cls r \<and> deterministic r)"
| "deterministic (CapturePlus cls # r) = (starts_outside cls r \<and> deterministic r)"

text \<open>
  The exit-code marker, spelled out: \<open>exit_code_marker ds m\<close> says that the text \<open>m\<close> is
  \<^verbatim>\<open>===\<close>, white space, \<^verbatim>\<open>Exit\<close>, white space, \<^verbatim>\<open>code:\<close>, white space, the digits \<open>ds\<close>, white
  space, \<^verbatim>\<open>===\<close>, the letters in either case.
\<close>

definition blank :: "string \<Rightarrow> bool" where
  "blank w = (w \<noteq> [] \<and> list_all is_space w)"

definition digits :: "string \<Rightarrow> bool" where
  "digits ds = (ds \<noteq> [] \<and> list_all is_digit ds)"

definition exit_code_marker :: "string \<Rightarrow> string \<Rightarrow> bool" where
  "exit_code_marker ds m =
     (\<exists>w1 b w2 c w3 w4.
        m = ''==='' @ w1 @ b @ w2 @ c @ w3 @ ds @ w4 @ ''==='' \<and>
        blank w1 \<and> toLowerCase b = ''exit'' \<and> blank w2 \<and> toLowerCase c = ''code:'' \<and>
        blank w3 \<and> digits ds \<and> blank w4)"

text \<open>An occurrence of a marker in a text: what stands before it, and its digits.\<close>

definition marker_at :: "string \<Rightarrow> string \<Rightarrow> string \<Rightarrow> bool" where
  "marker_at output pre ds = (\<exists>m post. output = pre @ m @ post \<and> exit_code_marker ds m)"

section \<open>Properties of the model\<close>

subsection \<open>Case folding\<close>

lemma canonicalize_other: "c \<notin> set ascii_lower \<Longrightarrow> canonicalize c = c"
proof -
  assume "c \<notin> set ascii_lower"
  moreover have "length ascii_lower = length ascii_upper"
    by (simp add: ascii_lower_def ascii_upper_def)
  ultimately have "map_of (zip ascii_lower ascii_upper) c = None"
    by (simp add: map_of_zip_is_None)
  then show ?thesis by (simp add: canonicalize_def)
qed

lemma toLowerCase_char_other: "c \<notin> set ascii_upper \<Longrightarrow> toLowerCase_char c = c"
proof -
  assume "c \<notin> set ascii_upper"
  moreover have "length ascii_upper = length ascii_lower"
    by (simp add: ascii_lower_def ascii_upper_def)
  ultimately have "map_of (zip ascii_upper ascii_lower) c = None"
    by (simp add: map_of_zip_is_None)
  then show ?thesis by (simp add: toLowerCase_char_def)
qed

lemma fold_letters:
  "\<forall>c \<in> set (ascii_lower @ ascii_upper).
     toLowerCase_char (canonicalize c) = toLowerCase_char c \<and>
     canonicalize (toLowerCase_char c) = canonicalize c"
  by (simp add: toLowerCase_char_def canonicalize_def ascii_upper_def ascii_lower_def)

lemma lower_canon: "toLowerCase_char (canonicalize c) = toLowerCase_char c"
  using fold_letters canonicalize_other [of c] toLowerCase_char_other [of c]
  by (cases "c \<in> set (ascii_lower @ ascii_upper)") auto

lemma canon_lower: "canonicalize (toLowerCase_char c) = canonicalize c"
  using fold_letters canonicalize_other [of c] toLowerCase_char_other [of c]
  by (cases "c \<in> set (ascii_lower @ ascii_upper)") auto

lemma canon_eq_iff: "canonicalize x = canonicalize c \<longleftrightarrow> toLowerCase_char x = toLowerCase_char c"
  by (metis lower_canon canon_lower)

lemma space_canon: "is_space x \<Longrightarrow> canonicalize x = x"
  by (rule canonicalize_other) (auto simp: is_space_def ascii_lower_def)

lemma digit_canon: "is_digit x \<Longrightarrow> canonicalize x = x"
  by (rule canonicalize_other) (auto simp: is_digit_def ascii_lower_def)

lemma digit_not_space: "is_digit x \<Longrightarrow> \<not> is_space x"
  by (auto simp: is_digit_def is_space_def)

subsection \<open>The matcher and the language of an alternative\<close>

lemma denotes_PlusI:
  "w \<noteq> [] \<Longrightarrow> list_all (accepts cls) w \<Longrightarrow> denotes r m caps \<Longrightarrow>
     denotes (Plus cls # r) (w @ m) caps"
  by (simp only: denotes.simps) blast

lemma denotes_CapturePlusI:
  "w \<noteq> [] \<Longrightarrow> list_all (accepts cls) w \<Longrightarrow> denotes r m caps \<Longrightarrow>
     denotes (CapturePlus cls # r) (w @ m) (w # caps)"
  by (simp only: denotes.simps) blast

lemma first_success_Some:
  "first_success f ks = Some y \<Longrightarrow> \<exists>k \<in> set ks. f k = Some y"
  by (induction ks) (auto split: option.splits)

lemma first_success_None: "first_success f ks = None \<longleftrightarrow> (\<forall>k \<in> set ks. f k = None)"
  by (induction ks) (auto split: option.splits)

lemma in_repetitions:
  "k \<in> set (repetitions cls s) \<longleftrightarrow> 1 \<le> k \<and> k \<le> length (takeWhile (accepts cls) s)"
  by (auto simp: repetitions_def)

lemma take_accepted:
  assumes "k \<le> length (takeWhile P s)"
  shows "list_all P (take k s)"
proof -
  have "take k s = take k (takeWhile P s)"
    using assms by (metis takeWhile_dropWhile_id take_append diff_is_0_eq' take_0 append_Nil2)
  then show ?thesis
    by (metis list_all_iff in_set_takeD set_takeWhileD)
qed

lemma match_here_sound:
  "match_here r s = Some caps \<Longrightarrow> \<exists>m post. s = m @ post \<and> denotes r m caps"
proof (induction r s arbitrary: caps rule: match_here.induct)
  case (1 s)
  then show ?case by simp
next
  case (2 c r s)
  show ?case
  proof (cases s)
    case Nil
    with 2(2) show ?thesis by simp
  next
    case (Cons x xs)
    with 2(2) have eq: "canonicalize x = canonicalize c" and rest: "match_here r xs = Some caps"
      by (auto split: if_splits)
    from 2(1) [OF Cons eq rest] obtain m post where "xs = m @ post" "denotes r m caps" by blast
    with Cons eq have "s = (x # m) @ post \<and> denotes (Chr c # r) (x # m) caps" by simp
    then show ?thesis by blast
  qed
next
  case (3 cls r s)
  from 3(2) obtain k where k: "k \<in> set (repetitions cls s)"
      "match_here r (drop k s) = Some caps"
    by (auto dest!: first_success_Some)
  from 3(1) [OF k(2)] obtain m post where mp: "drop k s = m @ post" "denotes r m caps" by blast
  from k(1) have kk: "1 \<le> k" "k \<le> length (takeWhile (accepts cls) s)"
    by (simp_all add: in_repetitions)
  then have "k \<le> length s" by (meson le_trans length_takeWhile_le)
  have "s = (take k s @ m) @ post" using mp(1) by (metis append_take_drop_id append_assoc)
  moreover have "take k s \<noteq> []" using kk \<open>k \<le> length s\<close> by (cases s) auto
  moreover have "list_all (accepts cls) (take k s)" using kk(2) by (rule take_accepted)
  ultimately have "s = (take k s @ m) @ post \<and> denotes (Plus cls # r) (take k s @ m) caps"
    using mp(2) by (simp add: denotes_PlusI del: denotes.simps)
  then show ?case by blast
next
  case (4 cls r s)
  from 4(2) obtain k y where k: "k \<in> set (repetitions cls s)"
      "match_here r (drop k s) = Some y" "caps = take k s # y"
    by (auto dest!: first_success_Some)
  from 4(1) [OF k(2)] obtain m post where mp: "drop k s = m @ post" "denotes r m y" by blast
  from k(1) have kk: "1 \<le> k" "k \<le> length (takeWhile (accepts cls) s)"
    by (simp_all add: in_repetitions)
  then have "k \<le> length s" by (meson le_trans length_takeWhile_le)
  have "s = (take k s @ m) @ post" using mp(1) by (metis append_take_drop_id append_assoc)
  moreover have "take k s \<noteq> []" using kk \<open>k \<le> length s\<close> by (cases s) auto
  moreover have "list_all (accepts cls) (take k s)" using kk(2) by (rule take_accepted)
  ultimately have "s = (take k s @ m) @ post \<and> denotes (CapturePlus cls # r) (take k s @ m) caps"
    using mp(2) k(3) by (simp add: denotes_CapturePlusI del: denotes.simps)
  then show ?case by blast
qed

lemma accepted_prefix_length:
  assumes "list_all P w"
  shows "length w \<le> length (takeWhile P (w @ t))"
  using assms by (induction w) auto

lemma plus_candidate:
  assumes "w \<noteq> []" "list_all (accepts cls) w"
  shows "length w \<in> set (repetitions cls (w @ t))"
  using assms accepted_prefix_length [OF assms(2), of t] by (cases w) (auto simp: repetitions_def)

lemma match_here_complete:
  "denotes r m caps \<Longrightarrow> match_here r (m @ post) \<noteq> None"
proof (induction r arbitrary: m caps)
  case Nil
  then show ?case by simp
next
  case (Cons i r)
  show ?case
  proof (cases i)
    case (Chr c)
    with Cons show ?thesis by auto
  next
    case (Plus cls)
    with Cons(2) obtain w m' where w: "m = w @ m'" "w \<noteq> []" "list_all (accepts cls) w"
        "denotes r m' caps"
      by auto
    have "match_here r (drop (length w) (m @ post)) \<noteq> None"
      using Cons(1) [OF w(4)] w(1) by simp
    moreover have "length w \<in> set (repetitions cls (m @ post))"
      using plus_candidate [OF w(2,3), of "m' @ post"] w(1) by simp
    ultimately have "first_success (\<lambda>k. match_here r (drop k (m @ post)))
        (repetitions cls (m @ post)) \<noteq> None"
      by (auto simp: first_success_None)
    with Plus show ?thesis by simp
  next
    case (CapturePlus cls)
    with Cons(2) obtain w m' caps' where w: "m = w @ m'" "w \<noteq> []" "list_all (accepts cls) w"
        "denotes r m' caps'"
      by auto
    have "match_here r (drop (length w) (m @ post)) \<noteq> None"
      using Cons(1) [OF w(4)] w(1) by simp
    moreover have "length w \<in> set (repetitions cls (m @ post))"
      using plus_candidate [OF w(2,3), of "m' @ post"] w(1) by simp
    ultimately have "first_success
        (\<lambda>k. map_option (\<lambda>caps. take k (m @ post) # caps) (match_here r (drop k (m @ post))))
        (repetitions cls (m @ post)) \<noteq> None"
      by (auto simp: first_success_None)
    with CapturePlus show ?thesis by simp
  qed
qed

lemma denotes_starts:
  "starts_outside cls r \<Longrightarrow> denotes r m caps \<Longrightarrow> m \<noteq> [] \<and> \<not> accepts cls (hd m)"
proof (cases r)
  case Nil
  then show "starts_outside cls r \<Longrightarrow> ?thesis" by simp
next
  case (Cons i r')
  assume so: "starts_outside cls r" and d: "denotes r m caps"
  show ?thesis
  proof (cases i)
    case (Chr c)
    with Cons so d show ?thesis by auto
  next
    case (Plus cls')
    with Cons d obtain w m' where "m = w @ m'" "w \<noteq> []" "list_all (accepts cls') w" by auto
    then have "m \<noteq> []" "accepts cls' (hd m)" by (cases w; simp)+
    with Cons Plus so show ?thesis by simp
  next
    case (CapturePlus cls')
    with Cons d obtain w m' where "m = w @ m'" "w \<noteq> []" "list_all (accepts cls') w" by auto
    then have "m \<noteq> []" "accepts cls' (hd m)" by (cases w; simp)+
    with Cons CapturePlus so show ?thesis by simp
  qed
qed

lemma takeWhile_run:
  assumes "list_all P w" "t \<noteq> []" "\<not> P (hd t)"
  shows "takeWhile P (w @ t @ u) = w"
  using assms by (induction w) (auto simp: neq_Nil_conv)

lemma run_unique:
  assumes "list_all P w" "t \<noteq> []" "\<not> P (hd t)"
      and "list_all P w'" "t' \<noteq> []" "\<not> P (hd t')"
      and "w @ t @ u = w' @ t' @ u'"
  shows "w = w' \<and> t @ u = t' @ u'"
proof -
  have "w = takeWhile P (w @ t @ u)" using assms(1-3) by (simp add: takeWhile_run)
  also have "\<dots> = w'" using assms(4-7) by (simp add: takeWhile_run)
  finally show ?thesis using assms(7) by simp
qed

lemma denotes_unique:
  "deterministic r \<Longrightarrow> denotes r m caps \<Longrightarrow> denotes r m' caps' \<Longrightarrow> m @ post = m' @ post' \<Longrightarrow>
     m = m' \<and> caps = caps'"
proof (induction r arbitrary: m m' caps caps')
  case Nil
  then show ?case by simp
next
  case (Cons i r)
  show ?case
  proof (cases i)
    case (Chr c)
    with Cons.prems obtain x t x' t' where
      "m = x # t" "denotes r t caps" "m' = x' # t'" "denotes r t' caps'" "deterministic r"
      by auto
    with Cons.IH [of t caps t' caps'] Cons.prems(4) show ?thesis by simp
  next
    case (Plus cls)
    with Cons.prems obtain w t w' t' where
      m: "m = w @ t" "w \<noteq> []" "list_all (accepts cls) w" "denotes r t caps" and
      m': "m' = w' @ t'" "w' \<noteq> []" "list_all (accepts cls) w'" "denotes r t' caps'" and
      det: "starts_outside cls r" "deterministic r"
      by auto
    from denotes_starts [OF det(1) m(4)] denotes_starts [OF det(1) m'(4)]
    have "w = w' \<and> t @ post = t' @ post'"
      using run_unique [OF m(3) _ _ m'(3), of t t' post post'] Cons.prems(4) m(1) m'(1) by simp
    with Cons.IH [OF det(2) m(4) m'(4)] m(1) m'(1) show ?thesis by simp
  next
    case (CapturePlus cls)
    with Cons.prems obtain w t c w' t' c' where
      m: "m = w @ t" "w \<noteq> []" "list_all (accepts cls) w" "denotes r t c" "caps = w # c" and
      m': "m' = w' @ t'" "w' \<noteq> []" "list_all (accepts cls) w'" "denotes r t' c'" "caps' = w' # c'" and
      det: "starts_outside cls r" "deterministic r"
      by auto
    from denotes_starts [OF det(1) m(4)] denotes_starts [OF det(1) m'(4)]
    have "w = w' \<and> t @ post = t' @ post'"
      using run_unique [OF m(3) _ _ m'(3), of t t' post post'] Cons.prems(4) m(1) m'(1) by simp
    with Cons.IH [OF det(2) m(4) m'(4)] m(1,5) m'(1,5) show ?thesis by simp
  qed
qed

lemma match_here_deterministic:
  assumes "deterministic r"
  shows "match_here r s = Some caps \<longleftrightarrow> (\<exists>m post. s = m @ post \<and> denotes r m caps)"
proof
  assume "match_here r s = Some caps"
  then show "\<exists>m post. s = m @ post \<and> denotes r m caps" by (rule match_here_sound)
next
  assume "\<exists>m post. s = m @ post \<and> denotes r m caps"
  then obtain m post where mp: "s = m @ post" "denotes r m caps" by blast
  from match_here_complete [OF mp(2), of post] mp(1)
  obtain caps' where c: "match_here r s = Some caps'" by auto
  from match_here_sound [OF c] obtain m' post' where mp': "s = m' @ post'" "denotes r m' caps'"
    by blast
  have "m @ post = m' @ post'" using mp(1) mp'(1) by simp
  from denotes_unique [OF assms mp(2) mp'(2) this] have "caps = caps'" by simp
  with c show "match_here r s = Some caps" by simp
qed

lemma match_here_None:
  "match_here r s = None \<longleftrightarrow> \<not> (\<exists>m post caps. s = m @ post \<and> denotes r m caps)"
  using match_here_sound [of r s] match_here_complete [of r]
  by (metis option.exhaust)

subsection \<open>The exit-code pattern\<close>

lemma toLowerCase_eq_iff:
  "toLowerCase a = toLowerCase t \<longleftrightarrow> map canonicalize a = map canonicalize t"
proof (induction a arbitrary: t)
  case Nil
  then show ?case by (auto simp: toLowerCase_def)
next
  case (Cons x a)
  then show ?case by (cases t) (auto simp: toLowerCase_def canon_eq_iff)
qed

lemma denotes_literal:
  "denotes (literal t @ r) m caps \<longleftrightarrow>
     (\<exists>a m'. m = a @ m' \<and> toLowerCase a = toLowerCase t \<and> denotes r m' caps)"
proof (induction t arbitrary: m)
  case Nil
  then show ?case by (simp add: literal_def toLowerCase_def)
next
  case (Cons c t)
  show ?case
  proof
    assume "denotes (literal (c # t) @ r) m caps"
    then obtain x m1 where x: "m = x # m1" "canonicalize x = canonicalize c"
        "denotes (literal t @ r) m1 caps"
      by (auto simp: literal_def)
    from x(3) Cons obtain a m' where a: "m1 = a @ m'" "toLowerCase a = toLowerCase t"
        "denotes r m' caps"
      by blast
    have "m = (x # a) @ m' \<and> toLowerCase (x # a) = toLowerCase (c # t) \<and> denotes r m' caps"
      using x(1,2) a by (simp add: toLowerCase_def canon_eq_iff)
    then show "\<exists>a m'. m = a @ m' \<and> toLowerCase a = toLowerCase (c # t) \<and> denotes r m' caps"
      by blast
  next
    assume "\<exists>a m'. m = a @ m' \<and> toLowerCase a = toLowerCase (c # t) \<and> denotes r m' caps"
    then obtain a m' where a: "m = a @ m'" "toLowerCase a = toLowerCase (c # t)"
        "denotes r m' caps"
      by blast
    from a(2) obtain x a' where x: "a = x # a'" "toLowerCase_char x = toLowerCase_char c"
        "toLowerCase a' = toLowerCase t"
      by (cases a) (auto simp: toLowerCase_def)
    have "denotes (literal t @ r) (a' @ m') caps" using Cons x(3) a(3) by blast
    then show "denotes (literal (c # t) @ r) m caps"
      using a(1) x(1,2) by (simp add: literal_def canon_eq_iff)
  qed
qed

lemma deterministic_literal: "deterministic (literal t @ r) = deterministic r"
  by (induction t) (simp_all add: literal_def)

lemma starts_outside_literal:
  "starts_outside cls (literal (c # t) @ r) = (\<forall>x. canonicalize x = canonicalize c \<longrightarrow> \<not> accepts cls x)"
  by (simp add: literal_def)

lemma canon_not_space:
  assumes "\<not> is_space (canonicalize c)"
  shows "\<forall>x. canonicalize x = canonicalize c \<longrightarrow> \<not> accepts Space x"
  using assms space_canon by (metis accepts.simps(2))

lemma canonicalize_E: "canonicalize (CHR ''E'') = CHR ''E''"
  by (simp add: canonicalize_def ascii_lower_def ascii_upper_def)

lemma canonicalize_c: "canonicalize (CHR ''c'') = CHR ''C''"
  by (simp add: canonicalize_def ascii_lower_def ascii_upper_def)

lemma canonicalize_eq: "canonicalize (CHR ''='') = CHR ''=''"
  by (simp add: canonicalize_def ascii_lower_def ascii_upper_def)

lemma deterministic_exit_code: "deterministic (hd exit_code_regexp)"
proof -
  have "\<forall>x. canonicalize x = canonicalize (CHR ''E'') \<longrightarrow> \<not> accepts Space x"
    by (rule canon_not_space) (simp add: canonicalize_E is_space_def)
  moreover have "\<forall>x. canonicalize x = canonicalize (CHR ''c'') \<longrightarrow> \<not> accepts Space x"
    by (rule canon_not_space) (simp add: canonicalize_c is_space_def)
  moreover have "\<forall>x. canonicalize x = canonicalize (CHR ''='') \<longrightarrow> \<not> accepts Space x"
    by (rule canon_not_space) (simp add: canonicalize_eq is_space_def)
  moreover have "\<forall>x. accepts Digit x \<longrightarrow> \<not> accepts Space x"
    by (simp add: digit_not_space)
  moreover have "\<forall>x. accepts Space x \<longrightarrow> \<not> accepts Digit x"
    using digit_not_space by auto
  ultimately show ?thesis
    by (simp add: exit_code_regexp_def deterministic_literal starts_outside_literal
        del: starts_outside.simps)
      (simp add: literal_def)
qed

lemma toLowerCase_char_eq_sign: "toLowerCase_char x = CHR ''='' \<Longrightarrow> x = CHR ''=''"
proof (cases "x \<in> set ascii_upper")
  case True
  moreover have "\<forall>y \<in> set ascii_upper. toLowerCase_char y \<noteq> CHR ''=''"
    by (simp add: toLowerCase_char_def ascii_upper_def ascii_lower_def)
  ultimately show "toLowerCase_char x = CHR ''='' \<Longrightarrow> ?thesis" by blast
next
  case False
  then show "toLowerCase_char x = CHR ''='' \<Longrightarrow> ?thesis" by (simp add: toLowerCase_char_other)
qed

lemma toLowerCase_equals: "toLowerCase a = toLowerCase ''==='' \<longleftrightarrow> a = ''===''"
proof
  assume "toLowerCase a = toLowerCase ''===''"
  then have "map toLowerCase_char a = ''===''"
    by (simp add: toLowerCase_def toLowerCase_char_def ascii_upper_def ascii_lower_def)
  then show "a = ''===''"
    by (auto simp: map_eq_Cons_conv dest!: toLowerCase_char_eq_sign)
qed simp

lemma toLowerCase_Exit: "toLowerCase ''Exit'' = ''exit''"
  by (simp add: toLowerCase_def toLowerCase_char_def ascii_upper_def ascii_lower_def)

lemma toLowerCase_code: "toLowerCase ''code:'' = ''code:''"
  by (simp add: toLowerCase_def toLowerCase_char_def ascii_upper_def ascii_lower_def)

lemma denotes_last_literal: "denotes (literal ''==='') t cs \<longleftrightarrow> t = ''==='' \<and> cs = []"
  using denotes_literal [of "''===''" "[]" t cs] by (auto simp: toLowerCase_equals)

lemma denotes_blank:
  "denotes (Plus Space # r) m caps \<longleftrightarrow> (\<exists>w m'. m = w @ m' \<and> blank w \<and> denotes r m' caps)"
  by (simp add: blank_def list_all_iff)

lemma denotes_digits:
  "denotes (CapturePlus Digit # r) m caps \<longleftrightarrow>
     (\<exists>ds m' caps'. m = ds @ m' \<and> digits ds \<and> caps = ds # caps' \<and> denotes r m' caps')"
  by (simp add: digits_def list_all_iff)

lemma exit_code_regexp_unfold:
  "hd exit_code_regexp =
     literal ''==='' @ Plus Space # literal ''Exit'' @ Plus Space # literal ''code:'' @
       Plus Space # CapturePlus Digit # Plus Space # literal ''===''"
  by (simp add: exit_code_regexp_def)

lemma denotes_exit_code_1:
  "denotes (hd exit_code_regexp) m caps \<longleftrightarrow>
    (\<exists>a m1. m = a @ m1 \<and> a = ''==='' \<and>
      (\<exists>w1 m2. m1 = w1 @ m2 \<and> blank w1 \<and>
        (\<exists>b m3. m2 = b @ m3 \<and> toLowerCase b = ''exit'' \<and>
          (\<exists>w2 m4. m3 = w2 @ m4 \<and> blank w2 \<and>
            (\<exists>c m5. m4 = c @ m5 \<and> toLowerCase c = ''code:'' \<and>
              (\<exists>w3 m6. m5 = w3 @ m6 \<and> blank w3 \<and>
                (\<exists>ds m7 caps'. m6 = ds @ m7 \<and> digits ds \<and> caps = ds # caps' \<and>
                  (\<exists>w4 m8. m7 = w4 @ m8 \<and> blank w4 \<and> m8 = ''==='' \<and> caps' = []))))))))"
  unfolding exit_code_regexp_unfold
  by (simp only: denotes_literal denotes_blank denotes_digits denotes_last_literal
      toLowerCase_equals toLowerCase_Exit toLowerCase_code)


lemma denotes_exit_code:
  "denotes (hd exit_code_regexp) m caps \<longleftrightarrow> (\<exists>ds. caps = [ds] \<and> exit_code_marker ds m)"
proof
  assume "denotes (hd exit_code_regexp) m caps"
  then obtain w1 b w2 c w3 ds w4 where
    "m = ''==='' @ w1 @ b @ w2 @ c @ w3 @ ds @ w4 @ ''==='' " "blank w1" "toLowerCase b = ''exit''"
    "blank w2" "toLowerCase c = ''code:''" "blank w3" "digits ds" "blank w4" "caps = [ds]"
    unfolding denotes_exit_code_1 by (elim exE conjE) simp
  then have "caps = [ds] \<and> exit_code_marker ds m"
    unfolding exit_code_marker_def by blast
  then show "\<exists>ds. caps = [ds] \<and> exit_code_marker ds m" ..
next
  assume "\<exists>ds. caps = [ds] \<and> exit_code_marker ds m"
  then obtain ds w1 b w2 c w3 w4 where
    "m = ''==='' @ w1 @ b @ w2 @ c @ w3 @ ds @ w4 @ ''==='' " "blank w1" "toLowerCase b = ''exit''"
    "blank w2" "toLowerCase c = ''code:''" "blank w3" "digits ds" "blank w4" "caps = [ds]"
    unfolding exit_code_marker_def by (elim exE conjE) simp
  then show "denotes (hd exit_code_regexp) m caps"
    unfolding denotes_exit_code_1
    by (intro exI conjI) (rule refl | assumption)+
qed

subsection \<open>The leftmost match\<close>

lemma regexp_exec_None:
  "regexp_exec re s = None \<longleftrightarrow>
     (\<forall>pre rest. s = pre @ rest \<longrightarrow> first_success (\<lambda>alt. match_here alt rest) re = None)"
proof (induction s)
  case Nil
  then show ?case by simp
next
  case (Cons x xs)
  show ?case
  proof
    assume none: "regexp_exec re (x # xs) = None"
    show "\<forall>pre rest. x # xs = pre @ rest \<longrightarrow> first_success (\<lambda>alt. match_here alt rest) re = None"
    proof (intro allI impI)
      fix pre rest
      assume split: "x # xs = pre @ rest"
      show "first_success (\<lambda>alt. match_here alt rest) re = None"
      proof (cases pre)
        case Nil
        with split none show ?thesis by (auto split: option.splits)
      next
        case (Cons y pre')
        with split have "xs = pre' @ rest" by simp
        moreover from none have "regexp_exec re xs = None" by (auto split: option.splits)
        ultimately show ?thesis using Cons.IH by blast
      qed
    qed
  next
    assume all: "\<forall>pre rest. x # xs = pre @ rest \<longrightarrow>
      first_success (\<lambda>alt. match_here alt rest) re = None"
    then have "first_success (\<lambda>alt. match_here alt (x # xs)) re = None" by simp
    moreover have "regexp_exec re xs = None"
      unfolding Cons.IH using all by (metis append_Cons)
    ultimately show "regexp_exec re (x # xs) = None" by simp
  qed
qed

lemma regexp_exec_leftmost:
  assumes "s = pre @ rest"
      and "first_success (\<lambda>alt. match_here alt rest) re = Some caps"
      and "\<forall>pre' rest'. s = pre' @ rest' \<and> length pre' < length pre \<longrightarrow>
             first_success (\<lambda>alt. match_here alt rest') re = None"
  shows "regexp_exec re s = Some caps"
  using assms
proof (induction pre arbitrary: s)
  case Nil
  then show ?case by (cases s) auto
next
  case (Cons y pre)
  then have s: "s = y # (pre @ rest)" by simp
  have "first_success (\<lambda>alt. match_here alt s) re = None"
    using Cons.prems(3) [rule_format, of "[]" s] by simp
  moreover have "regexp_exec re (pre @ rest) = Some caps"
  proof (rule Cons.IH [OF refl Cons.prems(2)], intro allI impI)
    fix pre' rest'
    assume "pre @ rest = pre' @ rest' \<and> length pre' < length pre"
    then show "first_success (\<lambda>alt. match_here alt rest') re = None"
      using Cons.prems(3) [rule_format, of "y # pre'" rest'] s by simp
  qed
  ultimately show ?case using s by simp
qed

lemma exit_code_match_here:
  "first_success (\<lambda>alt. match_here alt rest) exit_code_regexp = Some caps \<longleftrightarrow>
     (\<exists>ds m post. rest = m @ post \<and> exit_code_marker ds m \<and> caps = [ds])"
proof -
  have "first_success (\<lambda>alt. match_here alt rest) exit_code_regexp =
      match_here (hd exit_code_regexp) rest"
    by (simp add: exit_code_regexp_def split: option.splits)
  then show ?thesis
    using match_here_deterministic [OF deterministic_exit_code, of rest caps]
    by (auto simp: denotes_exit_code)
qed

lemma exit_code_match_here_None:
  "first_success (\<lambda>alt. match_here alt rest) exit_code_regexp = None \<longleftrightarrow>
     \<not> (\<exists>ds m post. rest = m @ post \<and> exit_code_marker ds m)"
  using exit_code_match_here [of rest]
  by (metis not_None_eq)

lemma regexp_exec_exit_code_None:
  "regexp_exec exit_code_regexp output = None \<longleftrightarrow> \<not> (\<exists>pre ds. marker_at output pre ds)"
  unfolding regexp_exec_None exit_code_match_here_None marker_at_def by blast

lemma regexp_exec_exit_code_first:
  assumes "marker_at output pre ds"
      and "\<And>pre' ds'. marker_at output pre' ds' \<Longrightarrow> length pre \<le> length pre'"
  shows "regexp_exec exit_code_regexp output = Some [ds]"
proof -
  from assms(1) obtain m post where m: "output = pre @ m @ post" "exit_code_marker ds m"
    unfolding marker_at_def by blast
  show ?thesis
  proof (rule regexp_exec_leftmost [OF m(1)], goal_cases)
    case 1
    show ?case unfolding exit_code_match_here using m(2) by blast
  next
    case 2
    show ?case
    proof (intro allI impI)
      fix pre' rest'
      assume a: "output = pre' @ rest' \<and> length pre' < length pre"
      show "first_success (\<lambda>alt. match_here alt rest') exit_code_regexp = None"
      proof (rule ccontr)
        assume "first_success (\<lambda>alt. match_here alt rest') exit_code_regexp \<noteq> None"
        then obtain ds' m' post' where "rest' = m' @ post'" "exit_code_marker ds' m'"
          unfolding exit_code_match_here_None by blast
        with a have "marker_at output pre' ds'" unfolding marker_at_def by blast
        from assms(2) [OF this] a show False by simp
      qed
    qed
  qed
qed

lemma exitCode_parseTestOutput:
  "exitCode (parseTestOutput output) =
     map_option (\<lambda>caps. parseInt10 (hd caps)) (regexp_exec exit_code_regexp output)"
  by (simp add: parseTestOutput_def Let_def split: option.splits)

subsection \<open>Error lines and numbers\<close>

lemma denotes_only_literal:
  "denotes (literal t) m caps \<longleftrightarrow> toLowerCase m = toLowerCase t \<and> caps = []"
  using denotes_literal [of t "[]" m caps] by auto

lemma match_literal:
  "match_here (literal t) rest \<noteq> None \<longleftrightarrow> prefix (toLowerCase t) (toLowerCase rest)"
proof -
  have "match_here (literal t) rest \<noteq> None \<longleftrightarrow>
      (\<exists>m post. rest = m @ post \<and> toLowerCase m = toLowerCase t)"
    unfolding match_here_None by (simp add: denotes_only_literal)
  also have "\<dots> \<longleftrightarrow> prefix (toLowerCase t) (toLowerCase rest)"
  proof
    assume "\<exists>m post. rest = m @ post \<and> toLowerCase m = toLowerCase t"
    then show "prefix (toLowerCase t) (toLowerCase rest)"
      by (auto simp: toLowerCase_def)
  next
    assume "prefix (toLowerCase t) (toLowerCase rest)"
    then obtain ss where "map toLowerCase_char rest = map toLowerCase_char t @ ss"
      by (auto simp: prefix_def toLowerCase_def)
    then obtain m post where "rest = m @ post" "map toLowerCase_char m = map toLowerCase_char t"
      by (auto simp: map_eq_append_conv)
    then show "\<exists>m post. rest = m @ post \<and> toLowerCase m = toLowerCase t"
      by (auto simp: toLowerCase_def)
  qed
  finally show ?thesis .
qed

lemma sublist_toLowerCase:
  "sublist tok (toLowerCase line) \<longleftrightarrow>
     (\<exists>pre rest. line = pre @ rest \<and> prefix tok (toLowerCase rest))"
proof
  assume "sublist tok (toLowerCase line)"
  then obtain ps ss where "map toLowerCase_char line = ps @ (tok @ ss)"
    by (auto simp: sublist_def toLowerCase_def)
  then obtain pre rest where "line = pre @ rest" "tok @ ss = map toLowerCase_char rest"
    using map_eq_append_conv [of toLowerCase_char line ps "tok @ ss"] by blast
  then have "line = pre @ rest \<and> prefix tok (toLowerCase rest)"
    by (metis toLowerCase_def prefixI)
  then show "\<exists>pre rest. line = pre @ rest \<and> prefix tok (toLowerCase rest)" by blast
next
  assume "\<exists>pre rest. line = pre @ rest \<and> prefix tok (toLowerCase rest)"
  then obtain pre rest ss where "line = pre @ rest" "toLowerCase rest = tok @ ss"
    by (auto simp: prefix_def)
  then have "toLowerCase line = toLowerCase pre @ tok @ ss" by (simp add: toLowerCase_def)
  then show "sublist tok (toLowerCase line)" unfolding sublist_def by blast
qed

lemma toLowerCase_error_tokens: "\<forall>tok \<in> set error_tokens. toLowerCase tok = tok"
  by (simp add: error_tokens_def toLowerCase_def toLowerCase_char_def ascii_upper_def
      ascii_lower_def)

lemma regexp_test_error:
  "regexp_test error_regexp line \<longleftrightarrow> (\<exists>tok \<in> set error_tokens. sublist tok (toLowerCase line))"
proof -
  have "regexp_test error_regexp line \<longleftrightarrow>
      (\<exists>pre rest. line = pre @ rest \<and>
         (\<exists>tok \<in> set error_tokens. match_here (literal tok) rest \<noteq> None))"
    unfolding regexp_test_def regexp_exec_None first_success_None error_regexp_def by auto
  also have "\<dots> \<longleftrightarrow> (\<exists>tok \<in> set error_tokens. \<exists>pre rest. line = pre @ rest \<and>
      prefix tok (toLowerCase rest))"
    unfolding match_literal using toLowerCase_error_tokens by auto
  finally show ?thesis unfolding sublist_toLowerCase .
qed

lemma bit_length_0: "bit_length 0 = 0"
  by (subst bit_length.simps) simp

lemma bit_length_pos: "0 < n \<Longrightarrow> bit_length n = Suc (bit_length (n div 2))"
  by (subst bit_length.simps) simp

lemma bit_length_le: "0 \<le> n \<Longrightarrow> bit_length n \<le> k \<longleftrightarrow> n < 2 ^ k"
proof (induction k arbitrary: n)
  case 0
  then show ?case by (cases "n = 0") (auto simp: bit_length_0 bit_length_pos)
next
  case (Suc k)
  show ?case
  proof (cases "n \<le> 0")
    case True
    with Suc.prems have "n = 0" by simp
    then show ?thesis by (simp add: bit_length_0)
  next
    case False
    then have "bit_length n = Suc (bit_length (n div 2))" by (simp add: bit_length_pos)
    moreover have "0 \<le> n div 2" using Suc.prems by simp
    ultimately have "bit_length n \<le> Suc k \<longleftrightarrow> n div 2 < 2 ^ k"
      using Suc.IH [of "n div 2"] by simp
    also have "\<dots> \<longleftrightarrow> n < 2 ^ Suc k" by auto
    finally show ?thesis .
  qed
qed

lemma to_number_exact: "0 \<le> n \<Longrightarrow> n < 2 ^ 53 \<Longrightarrow> to_number n = Finite n"
  using bit_length_le [of n 53] by (simp add: to_number_def)

lemma decimal_nonneg_aux:
  "list_all is_digit ds \<Longrightarrow> 0 \<le> n \<Longrightarrow>
     0 \<le> foldl (\<lambda>n d. 10 * n + (of_char d - of_char (CHR ''0''))) (n :: int) ds"
proof (induction ds arbitrary: n)
  case Nil
  then show ?case by simp
next
  case (Cons d ds)
  from Cons.prems(1) have "is_digit d" by simp
  then have "(0::int) \<le> of_char d - of_char (CHR ''0'')"
    by (auto simp: is_digit_def)
  with Cons.prems(2) have "0 \<le> 10 * n + (of_char d - of_char (CHR ''0''))" by simp
  with Cons show ?case by simp
qed

lemma decimal_nonneg: "digits ds \<Longrightarrow> 0 \<le> decimal ds"
  unfolding digits_def decimal_def using decimal_nonneg_aux [of ds 0] by simp

lemma to_number_zero: "0 \<le> n \<Longrightarrow> to_number n = Finite 0 \<longleftrightarrow> n = 0"
proof
  assume n: "0 \<le> n" and z: "to_number n = Finite 0"
  show "n = 0"
  proof (cases "bit_length n \<le> 53")
    case True
    with z show ?thesis by (simp add: to_number_def)
  next
    case False
    define e where "e = bit_length n - 53"
    have "\<not> bit_length n \<le> 52 + e" using False e_def by arith
    then have "\<not> n < 2 ^ (52 + e)" using bit_length_le [OF n, of "52 + e"] by simp
    then have big: "2 ^ 52 * 2 ^ e \<le> n" by (simp add: power_add)
    have "2 ^ 52 \<le> n div 2 ^ e"
    proof -
      have "(2 ^ 52 * 2 ^ e) div 2 ^ e \<le> n div 2 ^ e" using big by (rule zdiv_mono1) simp
      then show ?thesis by simp
    qed
    then have q: "0 < n div 2 ^ e" by simp
    from z False have "(if 2 ^ (e - 1) < n mod 2 ^ e \<or> n mod 2 ^ e = 2 ^ (e - 1) \<and> odd (n div 2 ^ e)
        then n div 2 ^ e + 1 else n div 2 ^ e) * 2 ^ e = 0"
      by (simp add: to_number_def e_def Let_def split: if_splits)
    with q show ?thesis by (auto split: if_splits)
  qed
next
  assume "n = 0"
  then show "to_number n = Finite 0" by (simp add: to_number_def bit_length_0)
qed

subsection \<open>The verdict of parseTestOutput\<close>

lemma standard_marker:
  assumes "digits ds"
  shows "exit_code_marker ds (''=== Exit code: '' @ ds @ '' ==='')"
proof -
  have b: "blank '' ''" by (simp add: blank_def is_space_def)
  have "''=== Exit code: '' @ ds @ '' ==='' =
      ''==='' @ '' '' @ ''Exit'' @ '' '' @ ''code:'' @ '' '' @ ds @ '' '' @ ''===''"
    by simp
  with b assms toLowerCase_Exit toLowerCase_code show ?thesis
    unfolding exit_code_marker_def by blast
qed

lemma marker_at_start:
  assumes "digits ds"
  shows "marker_at (''=== Exit code: '' @ ds @ '' ==='' @ post) [] ds"
  unfolding marker_at_def using standard_marker [OF assms]
  by (intro exI [of _ "''=== Exit code: '' @ ds @ '' ===''"] exI [of _ post]) simp

lemma marker_at_intro: "exit_code_marker ds m \<Longrightarrow> marker_at (pre @ m @ post) pre ds"
  unfolding marker_at_def by blast

lemma marker_starts: "exit_code_marker ds m \<Longrightarrow> \<exists>t. m = CHR ''='' # t"
  unfolding exit_code_marker_def by auto

lemma exitCode_first_marker:
  assumes "marker_at output pre ds"
    and "\<forall>pre' ds'. marker_at output pre' ds' \<longrightarrow> length pre \<le> length pre'"
  shows "exitCode (parseTestOutput output) = Some (parseInt10 ds)"
  using regexp_exec_exit_code_first [OF assms(1)] assms(2)
  by (simp add: exitCode_parseTestOutput)

lemma exitCode_no_marker:
  "exitCode (parseTestOutput output) = None \<longleftrightarrow> \<not> (\<exists>pre ds. marker_at output pre ds)"
  by (simp add: exitCode_parseTestOutput regexp_exec_exit_code_None)

lemma marker_digits: "marker_at output pre ds \<Longrightarrow> digits ds"
  by (auto simp: marker_at_def exit_code_marker_def)

lemma parseInt10_exact:
  assumes "digits ds" and "decimal ds < 2 ^ 53"
  shows "parseInt10 ds = Finite (decimal ds)"
  unfolding parseInt10_def using to_number_exact [OF decimal_nonneg [OF assms(1)] assms(2)] .

lemma errors_parseTestOutput:
  "errors (parseTestOutput output) =
     filter (\<lambda>line. \<exists>tok \<in> set error_tokens. sublist tok (toLowerCase line))
       (str_split (CHR 0x0A) output)"
proof -
  have "regexp_test error_regexp =
      (\<lambda>line. \<exists>tok \<in> set error_tokens. sublist tok (toLowerCase line))"
    by (rule ext) (rule regexp_test_error)
  then show ?thesis by (simp add: parseTestOutput_def Let_def)
qed

lemma success_parseTestOutput:
  "success (parseTestOutput output) \<longleftrightarrow>
     exitCode (parseTestOutput output) = Some (Finite 0) \<and> errors (parseTestOutput output) = []"
  by (simp add: parseTestOutput_def Let_def split: option.splits)

text \<open>
  Claim C2, as the code has it. The exit code is \<^verbatim>\<open>null\<close> exactly when no exit-code marker
  occurs in the text; when one occurs, the exit code is the number \<^verbatim>\<open>parseInt\<close> reads from
  the digits of the first occurrence, which is their integer when that is below \<open>2^53\<close>,
  and which is 0 exactly when their integer is 0.
  The error lines are the lines of the text, cut at line feeds, whose lower-cased text
  contains one of the six tokens, as they are and in their order, and the error count is
  their number. The verdict is a success exactly when the exit code is 0 and there is no
  error line; so a text with a line that contains \<^verbatim>\<open>warning\<close> in any case is no success,
  whatever its marker says.
\<close>

theorem parseTestOutput_classifies:
  "(exitCode (parseTestOutput output) = None \<longleftrightarrow> \<not> (\<exists>pre ds. marker_at output pre ds)) \<and>
   (\<forall>pre ds. marker_at output pre ds \<and>
        (\<forall>pre' ds'. marker_at output pre' ds' \<longrightarrow> length pre \<le> length pre') \<longrightarrow>
      exitCode (parseTestOutput output) = Some (to_number (decimal ds)) \<and>
      (exitCode (parseTestOutput output) = Some (Finite 0) \<longleftrightarrow> decimal ds = 0) \<and>
      (decimal ds < 2 ^ 53 \<longrightarrow> exitCode (parseTestOutput output) = Some (Finite (decimal ds)))) \<and>
   errors (parseTestOutput output) =
     filter (\<lambda>line. \<exists>tok \<in> set error_tokens. sublist tok (toLowerCase line))
       (str_split (CHR 0x0A) output) \<and>
   errorCount (parseTestOutput output) = length (errors (parseTestOutput output)) \<and>
   (success (parseTestOutput output) \<longleftrightarrow>
      exitCode (parseTestOutput output) = Some (Finite 0) \<and> errors (parseTestOutput output) = []) \<and>
   ((\<exists>line \<in> set (str_split (CHR 0x0A) output). sublist ''warning'' (toLowerCase line)) \<longrightarrow>
      \<not> success (parseTestOutput output))"
proof (intro conjI allI impI)
  show "exitCode (parseTestOutput output) = None \<longleftrightarrow> \<not> (\<exists>pre ds. marker_at output pre ds)"
    by (rule exitCode_no_marker)
  show "errors (parseTestOutput output) =
     filter (\<lambda>line. \<exists>tok \<in> set error_tokens. sublist tok (toLowerCase line))
       (str_split (CHR 0x0A) output)"
    by (rule errors_parseTestOutput)
  show "errorCount (parseTestOutput output) = length (errors (parseTestOutput output))"
    by (simp add: parseTestOutput_def Let_def)
  show "success (parseTestOutput output) \<longleftrightarrow>
      exitCode (parseTestOutput output) = Some (Finite 0) \<and> errors (parseTestOutput output) = []"
    by (rule success_parseTestOutput)
  {
    fix pre ds
    assume m: "marker_at output pre ds \<and>
        (\<forall>pre' ds'. marker_at output pre' ds' \<longrightarrow> length pre \<le> length pre')"
    then have e: "exitCode (parseTestOutput output) = Some (parseInt10 ds)"
      using exitCode_first_marker by blast
    then show "exitCode (parseTestOutput output) = Some (to_number (decimal ds))"
      by (simp add: parseInt10_def)
    from m have "0 \<le> decimal ds" using decimal_nonneg marker_digits by blast
    then show "exitCode (parseTestOutput output) = Some (Finite 0) \<longleftrightarrow> decimal ds = 0"
      using e to_number_zero by (simp add: parseInt10_def)
    assume "decimal ds < 2 ^ 53"
    with m e show "exitCode (parseTestOutput output) = Some (Finite (decimal ds))"
      using parseInt10_exact marker_digits by metis
  }
  assume "\<exists>line \<in> set (str_split (CHR 0x0A) output). sublist ''warning'' (toLowerCase line)"
  then obtain line where "line \<in> set (str_split (CHR 0x0A) output)"
      "sublist ''warning'' (toLowerCase line)"
    by blast
  moreover have "''warning'' \<in> set error_tokens" by (simp add: error_tokens_def)
  ultimately have "line \<in> set (errors (parseTestOutput output))"
    unfolding errors_parseTestOutput by auto
  then show "\<not> success (parseTestOutput output)"
    unfolding success_parseTestOutput by auto
qed


theorem parseTestOutput_classifies_witness:
  "marker_at (''=== Exit code: 0 ==='' @ [CHR 0x0A] @ ''Warning: deprecated flag'') [] ''0'' \<and>
   exitCode (parseTestOutput (''=== Exit code: 0 ==='' @ [CHR 0x0A] @ ''Warning: deprecated flag''))
     = Some (Finite 0) \<and>
   \<not> success (parseTestOutput (''=== Exit code: 0 ==='' @ [CHR 0x0A] @ ''Warning: deprecated flag''))"
proof -
  let ?out = "''=== Exit code: 0 ==='' @ [CHR 0x0A] @ ''Warning: deprecated flag''"
  have d: "digits ''0''" by (simp add: digits_def is_digit_def)
  have m: "marker_at ?out [] ''0''"
    using marker_at_start [OF d, of "[CHR 0x0A] @ ''Warning: deprecated flag''"] by simp
  have first: "\<forall>pre' ds'. marker_at ?out pre' ds' \<longrightarrow> length ([] :: string) \<le> length pre'"
    by simp
  have z: "decimal ''0'' = 0" by (simp add: decimal_def)
  have "''Warning: deprecated flag'' \<in> set (str_split (CHR 0x0A) ?out)" by simp
  moreover have "sublist ''warning'' (toLowerCase ''Warning: deprecated flag'')"
    by (rule prefix_imp_sublist)
      (simp add: toLowerCase_def toLowerCase_char_def ascii_upper_def ascii_lower_def)
  ultimately have w: "\<exists>line \<in> set (str_split (CHR 0x0A) ?out).
      sublist ''warning'' (toLowerCase line)"
    by blast
  note T = parseTestOutput_classifies [of ?out]
  note code = T [THEN conjunct2, THEN conjunct1, rule_format, of "[]" "''0''"]
  note warn = T [THEN conjunct2, THEN conjunct2, THEN conjunct2, THEN conjunct2, THEN conjunct2,
      rule_format]
  have "decimal ''0'' < 2 ^ 53 \<longrightarrow>
      exitCode (parseTestOutput ?out) = Some (Finite (decimal ''0''))"
    using code [OF conjI [OF m first]] by blast
  then have "exitCode (parseTestOutput ?out) = Some (Finite 0)" by (simp add: z)
  moreover have "\<not> success (parseTestOutput ?out)" using warn w by blast
  ultimately show ?thesis using m by (intro conjI)
qed

text \<open>
  The digits of a marker are read as a double: from \<open>2^53\<close> on the exit code that is
  returned need not be the integer of the marker.
\<close>

theorem large_exit_code_counterexample:
  "marker_at ''=== Exit code: 9007199254740993 ==='' [] ''9007199254740993'' \<and>
   decimal ''9007199254740993'' = 9007199254740993 \<and>
   exitCode (parseTestOutput ''=== Exit code: 9007199254740993 ==='') =
     Some (Finite 9007199254740992)"
proof -
  have d: "digits ''9007199254740993''" by (simp add: digits_def is_digit_def)
  have "marker_at ''=== Exit code: 9007199254740993 ==='' [] ''9007199254740993''"
    using marker_at_start [OF d, of "[]"] by simp
  moreover have "decimal ''9007199254740993'' = 9007199254740993" by code_simp
  moreover have "exitCode (parseTestOutput ''=== Exit code: 9007199254740993 ==='') =
     Some (Finite 9007199254740992)"
    by code_simp
  ultimately show ?thesis by (intro conjI)
qed

text \<open>
  Claim C10, as the code has it. The marker is looked for anywhere in the text: when a
  marker occurs after some text \<open>pre\<close> and no marker occurs earlier, the exit code is
  the number \<^verbatim>\<open>parseInt\<close> reads from the digits of that occurrence, whatever follows it,
  later markers included; that number is the integer of the digits when it is below
  \<open>2^53\<close>.
\<close>

theorem exit_code_of_earliest_marker:
  assumes "marker_at output pre ds"
    and "\<forall>pre' ds'. marker_at output pre' ds' \<longrightarrow> length pre \<le> length pre'"
  shows "exitCode (parseTestOutput output) = Some (parseInt10 ds) \<and>
         (decimal ds < 2 ^ 53 \<longrightarrow> parseInt10 ds = Finite (decimal ds))"
  using exitCode_first_marker [OF assms] parseInt10_exact [OF marker_digits [OF assms(1)]]
  by simp

theorem exit_code_of_earliest_marker_witness:
  "marker_at ''x=== Exit code: 3 === y=== Exit code: 0 ==='' ''x'' ''3'' \<and>
   marker_at ''x=== Exit code: 3 === y=== Exit code: 0 ==='' ''x=== Exit code: 3 === y'' ''0'' \<and>
   exitCode (parseTestOutput ''x=== Exit code: 3 === y=== Exit code: 0 ==='') = Some (Finite 3)"
proof -
  let ?out = "''x=== Exit code: 3 === y=== Exit code: 0 ===''"
  have d: "digits ''3''" "digits ''0''" by (simp_all add: digits_def is_digit_def)
  have m1: "marker_at ?out ''x'' ''3''"
    using marker_at_intro [OF standard_marker [OF d(1)], of "''x''" "'' y=== Exit code: 0 ===''"]
    by simp
  have m2: "marker_at ?out ''x=== Exit code: 3 === y'' ''0''"
    using marker_at_intro [OF standard_marker [OF d(2)], of "''x=== Exit code: 3 === y''" "[]"]
    by simp
  have first: "\<forall>pre' ds'. marker_at ?out pre' ds' \<longrightarrow> length ''x'' \<le> length pre'"
  proof (intro allI impI)
    fix pre' ds'
    assume "marker_at ?out pre' ds'"
    then obtain m post where o: "?out = pre' @ m @ post" and "exit_code_marker ds' m"
      unfolding marker_at_def by blast
    then obtain t where m: "m = CHR ''='' # t" using marker_starts by blast
    have "pre' \<noteq> []"
    proof
      assume "pre' = []"
      with o m show False by simp
    qed
    then show "length ''x'' \<le> length pre'" by (cases pre') simp_all
  qed
  have z: "decimal ''3'' = 3" by (simp add: decimal_def)
  have "(3 :: int) < 2 ^ 53" by simp
  with exit_code_of_earliest_marker [OF m1 first] z
  have "exitCode (parseTestOutput ?out) = Some (Finite 3)" by simp
  with m1 m2 show ?thesis by (intro conjI)
qed

text \<open>
  Of two markers the first decides, and what is returned is the double its digits are
  read as, here not the integer of the first marker.
\<close>

theorem earliest_large_exit_code_counterexample:
  "marker_at (''=== Exit code: 9007199254740993 ==='' @ [CHR 0x0A] @ ''=== Exit code: 0 ==='')
     [] ''9007199254740993'' \<and>
   marker_at (''=== Exit code: 9007199254740993 ==='' @ [CHR 0x0A] @ ''=== Exit code: 0 ==='')
     (''=== Exit code: 9007199254740993 ==='' @ [CHR 0x0A]) ''0'' \<and>
   decimal ''9007199254740993'' = 9007199254740993 \<and>
   exitCode (parseTestOutput
       (''=== Exit code: 9007199254740993 ==='' @ [CHR 0x0A] @ ''=== Exit code: 0 ==='')) =
     Some (Finite 9007199254740992)"
proof -
  have d: "digits ''9007199254740993''" "digits ''0''" by (simp_all add: digits_def is_digit_def)
  have "marker_at (''=== Exit code: 9007199254740993 ==='' @ [CHR 0x0A] @ ''=== Exit code: 0 ==='')
     [] ''9007199254740993''"
    using marker_at_start [OF d(1), of "[CHR 0x0A] @ ''=== Exit code: 0 ===''"] by simp
  moreover have "marker_at
     (''=== Exit code: 9007199254740993 ==='' @ [CHR 0x0A] @ ''=== Exit code: 0 ==='')
     (''=== Exit code: 9007199254740993 ==='' @ [CHR 0x0A]) ''0''"
    using marker_at_intro [OF standard_marker [OF d(2)],
        of "''=== Exit code: 9007199254740993 ==='' @ [CHR 0x0A]" "[]"]
    by simp
  moreover have "decimal ''9007199254740993'' = 9007199254740993" by code_simp
  moreover have "exitCode (parseTestOutput
       (''=== Exit code: 9007199254740993 ==='' @ [CHR 0x0A] @ ''=== Exit code: 0 ==='')) =
     Some (Finite 9007199254740992)"
    by code_simp
  ultimately show ?thesis by (intro conjI)
qed

subsection \<open>The image of a run\<close>

lemma newest_images:
  "newest_image ''windows'' = ''mcr.microsoft.com/windows/servercore:ltsc2022''"
  "newest_image ''ubuntu'' = ''ubuntu:22.04''"
  "newest_image ''centos'' = ''quay.io/centos/centos:stream8''"
  "newest_image ''debian'' = ''debian:11''"
  "newest_image ''rhel'' = ''registry.access.redhat.com/ubi9/ubi''"
  by code_simp+

lemma dockerImage_unknown:
  assumes "falsy customImage" "osMap_get (toLowerCase os) = None"
  shows "dockerImage os customImage = ImageRef (default_image os)"
  using assms by (auto simp: dockerImage_def falsy_def)

text \<open>
  Claim C7. A non-empty image override is the image, whatever the operating system.
  Without an override, an identifier whose lower-cased form is a key of the table gets
  the image the table pins for that key. An identifier for which \<^verbatim>\<open>osMap\<close> has nothing gets
  the image of the newest release of the first family it names, in the order windows,
  ubuntu, centos, debian, and \<^verbatim>\<open>ubuntu:22.04\<close> when it names none of the five families. So
  \<^verbatim>\<open>ubuntu-22.04\<close> resolves through the table, \<^verbatim>\<open>ubuntu-99.99\<close>, which the table does not have,
  through the branch of the Ubuntu family, and \<^verbatim>\<open>solaris-11\<close>, which names no family, to the
  final default.
\<close>

theorem image_resolution:
  "(\<forall>os customImage. customImage \<noteq> [] \<longrightarrow>
      dockerImage os (Some customImage) = ImageRef customImage) \<and>
   (\<forall>os customImage img. falsy customImage \<and> map_of osMap (toLowerCase os) = Some img \<longrightarrow>
      dockerImage os customImage = ImageRef img) \<and>
   (\<forall>os customImage family. falsy customImage \<and> osMap_get (toLowerCase os) = None \<and>
      find (str_includes (toLowerCase os)) families = Some family \<and> family \<noteq> ''rhel'' \<longrightarrow>
      dockerImage os customImage = ImageRef (newest_image family)) \<and>
   (\<forall>os customImage. falsy customImage \<and> osMap_get (toLowerCase os) = None \<and>
      find (str_includes (toLowerCase os)) families = None \<longrightarrow>
      dockerImage os customImage = ImageRef ''ubuntu:22.04'') \<and>
   map_of osMap (toLowerCase ''ubuntu-22.04'') = Some ''ubuntu:22.04'' \<and>
   dockerImage ''ubuntu-22.04'' None = ImageRef ''ubuntu:22.04'' \<and>
   osMap_get (toLowerCase ''ubuntu-99.99'') = None \<and>
   find (str_includes (toLowerCase ''ubuntu-99.99'')) families = Some ''ubuntu'' \<and>
   dockerImage ''ubuntu-99.99'' None = ImageRef (newest_image ''ubuntu'') \<and>
   osMap_get (toLowerCase ''solaris-11'') = None \<and>
   find (str_includes (toLowerCase ''solaris-11'')) families = None \<and>
   dockerImage ''solaris-11'' None = ImageRef ''ubuntu:22.04''"
proof -
  have override: "\<forall>os customImage. customImage \<noteq> [] \<longrightarrow>
      dockerImage os (Some customImage) = ImageRef customImage"
    by (simp add: dockerImage_def)
  have table: "\<forall>os customImage img.
      falsy customImage \<and> map_of osMap (toLowerCase os) = Some img \<longrightarrow>
      dockerImage os customImage = ImageRef img"
    by (auto simp: dockerImage_def falsy_def osMap_get_def)
  have family: "\<forall>os customImage family. falsy customImage \<and> osMap_get (toLowerCase os) = None \<and>
      find (str_includes (toLowerCase os)) families = Some family \<and> family \<noteq> ''rhel'' \<longrightarrow>
      dockerImage os customImage = ImageRef (newest_image family)"
    by (auto simp: dockerImage_unknown families_def default_image_def newest_images
        split: if_splits)
  have final: "\<forall>os customImage. falsy customImage \<and> osMap_get (toLowerCase os) = None \<and>
      find (str_includes (toLowerCase os)) families = None \<longrightarrow>
      dockerImage os customImage = ImageRef ''ubuntu:22.04''"
    by (auto simp: dockerImage_unknown families_def default_image_def split: if_splits)
  have a: "map_of osMap (toLowerCase ''ubuntu-22.04'') = Some ''ubuntu:22.04''" by code_simp
  have b: "dockerImage ''ubuntu-22.04'' None = ImageRef ''ubuntu:22.04''" by code_simp
  have c: "osMap_get (toLowerCase ''ubuntu-99.99'') = None" by code_simp
  have d: "find (str_includes (toLowerCase ''ubuntu-99.99'')) families = Some ''ubuntu''"
    by code_simp
  have e: "dockerImage ''ubuntu-99.99'' None = ImageRef (newest_image ''ubuntu'')" by code_simp
  have f: "osMap_get (toLowerCase ''solaris-11'') = None" by code_simp
  have g: "find (str_includes (toLowerCase ''solaris-11'')) families = None" by code_simp
  have h: "dockerImage ''solaris-11'' None = ImageRef ''ubuntu:22.04''" by code_simp
  from override table family final a b c d e f g h show ?thesis by (intro conjI)
qed

theorem image_resolution_witness:
  "''custom/image:tag'' \<noteq> [] \<and>
   dockerImage ''debian-11'' (Some ''custom/image:tag'') = ImageRef ''custom/image:tag'' \<and>
   falsy None \<and> map_of osMap (toLowerCase ''CentOS-7'') = Some ''centos:7'' \<and>
   dockerImage ''CentOS-7'' None = ImageRef ''centos:7'' \<and>
   osMap_get (toLowerCase ''Debian 12'') = None \<and>
   find (str_includes (toLowerCase ''Debian 12'')) families = Some ''debian'' \<and>
   ''debian'' \<noteq> ''rhel'' \<and>
   dockerImage ''Debian 12'' None = ImageRef ''debian:11'' \<and>
   osMap_get (toLowerCase ''FreeBSD'') = None \<and>
   find (str_includes (toLowerCase ''FreeBSD'')) families = None \<and>
   dockerImage ''FreeBSD'' None = ImageRef ''ubuntu:22.04''"
proof -
  have f: "falsy None" by (simp add: falsy_def)
  have c: "map_of osMap (toLowerCase ''CentOS-7'') = Some ''centos:7''" by code_simp
  have d: "osMap_get (toLowerCase ''Debian 12'') = None"
    "find (str_includes (toLowerCase ''Debian 12'')) families = Some ''debian''"
    "newest_image ''debian'' = ''debian:11''"
    by code_simp+
  have b: "osMap_get (toLowerCase ''FreeBSD'') = None"
    "find (str_includes (toLowerCase ''FreeBSD'')) families = None"
    by code_simp+
  have override: "dockerImage ''debian-11'' (Some ''custom/image:tag'') = ImageRef ''custom/image:tag''"
    using image_resolution [THEN conjunct1, rule_format,
        where customImage = "''custom/image:tag''" and os = "''debian-11''"]
    by simp
  have table: "dockerImage ''CentOS-7'' None = ImageRef ''centos:7''"
    using image_resolution [THEN conjunct2, THEN conjunct1, rule_format,
        where customImage = None and os = "''CentOS-7''" and img = "''centos:7''"] f c
    by simp
  have family: "dockerImage ''Debian 12'' None = ImageRef ''debian:11''"
    using image_resolution [THEN conjunct2, THEN conjunct2, THEN conjunct1, rule_format,
        where customImage = None and os = "''Debian 12''" and family = "''debian''"] f d
    by simp
  have final: "dockerImage ''FreeBSD'' None = ImageRef ''ubuntu:22.04''"
    using image_resolution [THEN conjunct2, THEN conjunct2, THEN conjunct2, THEN conjunct1,
        rule_format, where customImage = None and os = "''FreeBSD''"] f b
    by simp
  from override table family final f c d(1,2) b show ?thesis by simp
qed

text \<open>
  Claim C4, as the code has it. With no image override and no entry of \<^verbatim>\<open>osMap\<close> for the
  lower-cased identifier, the first family name the identifier contains, in the order
  windows, ubuntu, centos, debian, decides the image, and it is the image the table gives
  the newest release of that family; an identifier that contains none of the five family
  names gets \<^verbatim>\<open>ubuntu:22.04\<close>. Nothing is said here of an identifier whose first family
  name is rhel.
\<close>

theorem family_fallback:
  assumes "falsy customImage" and "osMap_get (toLowerCase os) = None"
  shows "(\<forall>family. find (str_includes (toLowerCase os)) families = Some family \<and> family \<noteq> ''rhel'' \<longrightarrow>
            dockerImage os customImage = ImageRef (newest_image family)) \<and>
         (find (str_includes (toLowerCase os)) families = None \<longrightarrow>
            dockerImage os customImage = ImageRef ''ubuntu:22.04'')"
  unfolding dockerImage_unknown [OF assms]
  by (auto simp: families_def default_image_def newest_images split: if_splits)

theorem family_fallback_witness:
  "falsy None \<and> osMap_get (toLowerCase ''CentOS Stream'') = None \<and>
   find (str_includes (toLowerCase ''CentOS Stream'')) families = Some ''centos'' \<and>
   dockerImage ''CentOS Stream'' None = ImageRef ''quay.io/centos/centos:stream8'' \<and>
   find (str_includes (toLowerCase ''solaris-11'')) families = None \<and>
   dockerImage ''solaris-11'' None = ImageRef ''ubuntu:22.04''"
proof -
  have f: "falsy None" by (simp add: falsy_def)
  have c: "osMap_get (toLowerCase ''CentOS Stream'') = None" by code_simp
  have s: "osMap_get (toLowerCase ''solaris-11'') = None" by code_simp
  have fc: "find (str_includes (toLowerCase ''CentOS Stream'')) families = Some ''centos''"
    by code_simp
  have fs: "find (str_includes (toLowerCase ''solaris-11'')) families = None" by code_simp
  have n: "newest_image ''centos'' = ''quay.io/centos/centos:stream8''" by code_simp
  from family_fallback [OF f c] fc n family_fallback [OF f s] fs f c
  show ?thesis by simp
qed

text \<open>
  The claim as it was stated fails on an identifier that names two families, which gets
  the image of the first in the order of the code, and on one that names rhel, which gets
  the image of rhel-8 while the table has rhel-9.
\<close>

theorem family_fallback_counterexample:
  "osMap_get (toLowerCase ''ubuntu-windows'') = None \<and>
   str_includes (toLowerCase ''ubuntu-windows'') ''ubuntu'' \<and>
   dockerImage ''ubuntu-windows'' None = ImageRef ''mcr.microsoft.com/windows/servercore:ltsc2022'' \<and>
   dockerImage ''ubuntu-windows'' None \<noteq> ImageRef (newest_image ''ubuntu'') \<and>
   osMap_get (toLowerCase ''rhel-10'') = None \<and>
   str_includes (toLowerCase ''rhel-10'') ''rhel'' \<and>
   dockerImage ''rhel-10'' None = ImageRef ''registry.access.redhat.com/ubi8/ubi'' \<and>
   map_of osMap ''rhel-9'' = Some (newest_image ''rhel'') \<and>
   dockerImage ''rhel-10'' None \<noteq> ImageRef (newest_image ''rhel'')"
  by code_simp

subsection \<open>Running a test\<close>

lemma guarded_ok: "thrown s = None \<Longrightarrow> guarded f s = f s"
  by (simp add: guarded_def)

lemma guarded_thrown: "thrown s = Some msg \<Longrightarrow> guarded f s = s"
  by (simp add: guarded_def)

lemma run_steps_Nil: "run_steps [] s = s"
  by (simp add: run_steps_def)

lemma run_steps_Cons: "run_steps (f # fs) s = run_steps fs (guarded f s)"
  by (simp add: run_steps_def)

lemma run_steps_append: "run_steps (fs @ gs) s = run_steps gs (run_steps fs s)"
  by (simp add: run_steps_def)

lemma run_steps_thrown: "thrown s = Some msg \<Longrightarrow> run_steps fs s = s"
  by (induction fs arbitrary: s) (simp_all add: run_steps_Nil run_steps_Cons guarded_thrown)

lemma fs_call_ok:
  "fs_throws e line = None \<Longrightarrow> fs_call e line effect s = s\<lparr>files := effect (files s)\<rparr>"
  by (simp add: fs_call_def)

lemma fs_call_throws:
  "fs_throws e line = Some msg \<Longrightarrow> fs_call e line effect s = s\<lparr>thrown := Some msg\<rparr>"
  by (simp add: fs_call_def)

lemma path_join_name:
  "path_join p ''metadata.json'' = p @ [''metadata.json'']"
  "path_join p ''results.json'' = p @ [''results.json'']"
  "path_join p ''entrypoint.sh'' = p @ [''entrypoint.sh'']"
  "path_join p ''output'' = p @ [''output'']"
  "path_join p ''container_logs.txt'' = p @ [''container_logs.txt'']"
  "path_join p ''script_output.log'' = p @ [''script_output.log'']"
  by (simp_all add: path_join_def)

text \<open>
  Claim C6. A submission whose script content or operating system is absent or empty is
  answered with status 400 and an error message, before anything else is done: the files
  and the containers are the same when the response is sent, and the same afterwards, so
  no record, no run directory and no container has been created.
\<close>

theorem rejects_missing_input:
  assumes "\<not> valid r"
  shows "(response (runTest e r w) = Response 400 (ErrorBody ''Script content is required'') \<or>
          response (runTest e r w) = Response 400 (ErrorBody ''Operating system is required'')) \<and>
         responded (runTest e r w) = w \<and>
         settled (runTest e r w) = w"
  using assms
  by (auto simp: valid_def falsy_def runTest_def rejected_def split: option.splits)

theorem rejects_missing_input_witness:
  "\<not> valid (example_request\<lparr>req_operatingSystem := Some []\<rparr>) \<and>
   response (runTest example_env (example_request\<lparr>req_operatingSystem := Some []\<rparr>) example_world) =
     Response 400 (ErrorBody ''Operating system is required'') \<and>
   responded (runTest example_env (example_request\<lparr>req_operatingSystem := Some []\<rparr>) example_world) =
     example_world \<and>
   settled (runTest example_env (example_request\<lparr>req_operatingSystem := Some []\<rparr>) example_world) =
     example_world"
proof -
  have v: "\<not> valid (example_request\<lparr>req_operatingSystem := Some []\<rparr>)"
    by (simp add: valid_def falsy_def)
  have c: "req_scriptContent (example_request\<lparr>req_operatingSystem := Some []\<rparr>) = Some ''echo hi''"
    by (simp add: example_request_def)
  have "response (runTest example_env (example_request\<lparr>req_operatingSystem := Some []\<rparr>)
      example_world) \<noteq> Response 400 (ErrorBody ''Script content is required'')"
    using c by (simp add: runTest_def rejected_def)
  with rejects_missing_input [OF v, of example_env example_world] v show ?thesis by simp
qed

lemma fs_succeeds_Cons: "fs_succeeds e (n # ns) \<longleftrightarrow> fs_throws e n = None \<and> fs_succeeds e ns"
  by (simp add: fs_succeeds_def)

lemma fs_succeeds_Nil: "fs_succeeds e []"
  by (simp add: fs_succeeds_def)

lemma stringify_metadata_fields:
  "test_id (stringify_metadata m) = test_id m"
  "scriptId (stringify_metadata m) = scriptId m"
  "operatingSystem (stringify_metadata m) = operatingSystem m"
  "startTime (stringify_metadata m) = startTime m"
  "status (stringify_metadata m) = status m"
  "containerName (stringify_metadata m) = containerName m"
  "containerId (stringify_metadata m) = containerId m"
  "endTime (stringify_metadata m) = endTime m"
  "meta_exitCode (stringify_metadata m) = meta_exitCode m"
  "meta_success (stringify_metadata m) = meta_success m"
  "meta_errorCount (stringify_metadata m) = meta_errorCount m"
  "error (stringify_metadata m) = error m"
  by (simp_all add: stringify_metadata_def)

lemma write_metadata_ok:
  "fs_throws e line = None \<Longrightarrow>
     write_metadata e line s =
       s\<lparr>files := writeFile (metadataPath e) (Metadata (stringify_metadata (testMetadata s)))
                  (files s)\<rparr>"
  by (simp add: write_metadata_def fs_call_ok)

lemma prepare_ok:
  assumes "fs_succeeds e [63, 64, 69, 70, 84]"
  shows "run_steps (prepare e scriptContent fileName) (start_state e sid os customImage w) =
     (start_state e sid os customImage w)
       \<lparr>files := writeFile (metadataPath e)
            (Metadata (stringify_metadata (testMetadata (start_state e sid os customImage w))))
            (writeFile (path_join (testDir e) fileName) (Text scriptContent)
              (ensureDir (path_join (testDir e) ''output'') (ensureDir (testDir e) (files w))))\<rparr>"
  using assms
  by (simp add: prepare_def run_steps_Cons run_steps_Nil guarded_ok fs_call_ok
      write_metadata_ok fs_succeeds_Cons start_state_def)

lemma before_await_ok:
  assumes "fs_succeeds e [135, 162, 163]" and "thrown s = None"
  shows "thrown (run_steps (before_await e os customImage fileName) s) = None"
    and "testMetadata (run_steps (before_await e os customImage fileName) s) =
           (testMetadata s)\<lparr>containerImage := Some (dockerImage os customImage)\<rparr>"
    and "map_of (files (run_steps (before_await e os customImage fileName) s)) (metadataPath e) =
           Some (File (Metadata (stringify_metadata
             ((testMetadata s)\<lparr>containerImage := Some (dockerImage os customImage)\<rparr>))))"
    and "containers (run_steps (before_await e os customImage fileName) s) = containers s"
  using assms
  by (simp_all add: before_await_def write_entrypoint_def run_steps_Cons run_steps_Nil guarded_ok
      fs_call_ok write_metadata_ok fs_succeeds_Cons resolve_image_def writeFile_def
      update_conv' metadataPath_def entrypointPath_def path_join_name)

lemma valid_cases:
  assumes "valid r"
  obtains scriptContent os where "req_scriptContent r = Some scriptContent" "scriptContent \<noteq> []"
    "req_operatingSystem r = Some os" "os \<noteq> []"
  using assms by (auto simp: valid_def falsy_def)

lemma runTest_valid:
  assumes "req_scriptContent r = Some scriptContent" "scriptContent \<noteq> []"
    "req_operatingSystem r = Some os" "os \<noteq> []"
  shows "runTest e r w =
     accepted e (req_scriptId r) scriptContent (req_scriptType r) os (req_customImage r) w"
  using assms by (simp add: runTest_def)

lemma fs_succeeds_append:
  "fs_succeeds e (ms @ ns) \<longleftrightarrow> fs_succeeds e ms \<and> fs_succeeds e ns"
  by (simp add: fs_succeeds_def)

lemma prepare_ok_thrown:
  assumes "fs_succeeds e [63, 64, 69, 70, 84]"
  shows "thrown (run_steps (prepare e scriptContent fileName) (start_state e sid os customImage w)) = None"
  unfolding prepare_ok [OF assms] by (simp add: start_state_def)

text \<open>
  Claim C1, as the code has it. For a submission with script content and operating
  system, when no call of the file system throws before the response, \<^verbatim>\<open>runTest\<close> answers
  202 with the record of the run, and the file \<^verbatim>\<open>metadata.json\<close> of the run holds that same
  record when the response is sent. Its status is \<^verbatim>\<open>running\<close>, its image is the image
  resolved from the operating system and the override, as JSON writes it (a string; an
  inherited function is left out), it has the identifier, the script id, the operating
  system, the start time and the container name of the run, and nothing else yet.
\<close>

theorem runTest_returns_running_record:
  assumes "valid r" and "fs_succeeds e [63, 64, 69, 70, 84, 135, 162, 163]"
  shows "\<exists>m os. req_operatingSystem r = Some os \<and>
           response (runTest e r w) = Response 202 (StartedBody m) \<and>
           persisted_record e (responded (runTest e r w)) = Some m \<and>
           status m = ''running'' \<and>
           containerImage m =
             (case dockerImage os (req_customImage r) of
                ImageRef name \<Rightarrow> Some (ImageRef name)
              | Inherited key \<Rightarrow> if key = ''__proto__'' then Some (Inherited key) else None) \<and>
           test_id m = uuidv4 e \<and> scriptId m = req_scriptId r \<and> operatingSystem m = os \<and>
           startTime m = now_start e \<and>
           containerName m = ''autotool-test-'' @ take 8 (uuidv4 e) \<and>
           containerId m = None \<and> endTime m = None \<and> meta_exitCode m = None \<and>
           meta_success m = None \<and> meta_errorCount m = None \<and> error m = None"
proof -
  from assms(1) obtain scriptContent os where r: "req_scriptContent r = Some scriptContent"
      "scriptContent \<noteq> []" "req_operatingSystem r = Some os" "os \<noteq> []"
    by (rule valid_cases)
  from assms(2) have p: "fs_succeeds e [63, 64, 69, 70, 84]" and b: "fs_succeeds e [135, 162, 163]"
    by (simp_all add: fs_succeeds_Cons)
  let ?fileName = "scriptFileName (req_scriptType r) os"
  let ?s0 = "run_steps (prepare e scriptContent ?fileName)
    (start_state e (req_scriptId r) os (req_customImage r) w)"
  let ?s1 = "run_steps (before_await e os (req_customImage r) ?fileName) ?s0"
  let ?m = "stringify_metadata (testMetadata ?s1)"
  have t0: "thrown ?s0 = None" using p by (rule prepare_ok_thrown)
  have m0: "testMetadata ?s0 = testMetadata (start_state e (req_scriptId r) os (req_customImage r) w)"
    unfolding prepare_ok [OF p] by simp
  note s1 = before_await_ok [OF b t0, of os "req_customImage r" ?fileName]
  have c1: "catch_block e ?s1 = ?s1" using s1(1) by (simp add: catch_block_def)
  have run: "runTest e r w = \<lparr> response = Response 202 (StartedBody ?m),
      responded = world_of ?s1,
      settled = world_of (background e os (req_customImage r) ?fileName ?s0) \<rparr>"
    unfolding runTest_valid [OF r] accepted_def Let_def using t0 c1 by simp
  have m1: "testMetadata ?s1 =
      (testMetadata (start_state e (req_scriptId r) os (req_customImage r) w))
        \<lparr>containerImage := Some (dockerImage os (req_customImage r))\<rparr>"
    using s1(2) m0 by simp
  have persisted: "persisted_record e (responded (runTest e r w)) = Some ?m"
    using s1(3) m0 by (simp add: run m1 persisted_record_def world_of_def)
  have image: "containerImage ?m =
      (case dockerImage os (req_customImage r) of
         ImageRef name \<Rightarrow> Some (ImageRef name)
       | Inherited key \<Rightarrow> if key = ''__proto__'' then Some (Inherited key) else None)"
    unfolding m1 by (simp add: stringify_metadata_def stringify_image_def)
  have fields: "status ?m = ''running''" "test_id ?m = uuidv4 e" "scriptId ?m = req_scriptId r"
    "operatingSystem ?m = os" "startTime ?m = now_start e"
    "containerName ?m = ''autotool-test-'' @ take 8 (uuidv4 e)"
    "containerId ?m = None" "endTime ?m = None" "meta_exitCode ?m = None"
    "meta_success ?m = None" "meta_errorCount ?m = None" "error ?m = None"
    unfolding m1 stringify_metadata_fields by (simp_all add: start_state_def)
  from r(3) run persisted image fields show ?thesis by simp
qed

theorem runTest_returns_running_record_witness:
  "valid example_request \<and>
   fs_succeeds example_env [63, 64, 69, 70, 84, 135, 162, 163] \<and>
   dockerImage ''ubuntu-22.04'' None = ImageRef ''ubuntu:22.04'' \<and>
   (\<exists>m. response (runTest example_env example_request example_world) =
           Response 202 (StartedBody m) \<and>
        persisted_record example_env
          (responded (runTest example_env example_request example_world)) = Some m \<and>
        status m = ''running'' \<and> containerImage m = Some (ImageRef ''ubuntu:22.04'') \<and>
        operatingSystem m = ''ubuntu-22.04'')"
proof -
  have v: "valid example_request"
    by (simp add: valid_def falsy_def example_request_def)
  have f: "fs_succeeds example_env [63, 64, 69, 70, 84, 135, 162, 163]"
    by (simp add: fs_succeeds_def example_env_def)
  have i: "dockerImage ''ubuntu-22.04'' None = ImageRef ''ubuntu:22.04''" by code_simp
  have q: "req_operatingSystem example_request = Some ''ubuntu-22.04''"
    "req_customImage example_request = None"
    by (simp_all add: example_request_def)
  from runTest_returns_running_record [OF v f, of example_world] obtain m os where
    m: "req_operatingSystem example_request = Some os"
      "response (runTest example_env example_request example_world) =
         Response 202 (StartedBody m)"
      "persisted_record example_env
         (responded (runTest example_env example_request example_world)) = Some m"
      "status m = ''running''"
      "containerImage m =
         (case dockerImage os (req_customImage example_request) of
            ImageRef name \<Rightarrow> Some (ImageRef name)
          | Inherited key \<Rightarrow> if key = ''__proto__'' then Some (Inherited key) else None)"
      "operatingSystem m = os"
    by blast
  from m(1) q(1) have os: "os = ''ubuntu-22.04''" by simp
  from m(5) have "containerImage m = Some (ImageRef ''ubuntu:22.04'')"
    unfolding os q(2) i by simp
  with v f i m(2,3,4) m(6) os show ?thesis by blast
qed

text \<open>
  The status of the record that is returned and persisted is not \<^verbatim>\<open>pending\<close>, which is a
  status the code does not have. And when the first write of the record (line 84) throws,
  as it does on a full disk, the submission is answered 500 with the message of the error:
  no record is returned, and none is persisted. When the write of the record with its
  image (line 135) throws, the record that is returned has status \<^verbatim>\<open>failed\<close>.
\<close>

theorem initial_record_counterexample:
  "valid example_request \<and>
   map_option status
     (started_record (response (runTest example_env example_request example_world))) =
     Some ''running'' \<and>
   map_option status
     (persisted_record example_env (responded (runTest example_env example_request example_world))) =
     Some ''running'' \<and>
   map_option status
     (started_record (response (runTest example_env example_request example_world))) \<noteq>
     Some ''pending'' \<and>
   response (runTest (fs_failing 84 ''ENOSPC: no space left on device, write'' example_env)
       example_request example_world) =
     Response 500 (ErrorBody ''ENOSPC: no space left on device, write'') \<and>
   persisted_record (fs_failing 84 ''ENOSPC: no space left on device, write'' example_env)
     (responded (runTest (fs_failing 84 ''ENOSPC: no space left on device, write'' example_env)
        example_request example_world)) = None \<and>
   map_option status
     (started_record
        (response (runTest (fs_failing 135 ''ENOSPC: no space left on device, write'' example_env)
           example_request example_world))) = Some ''failed''"
  by code_simp

lemma catch_block_failed:
  assumes "thrown s = Some msg" and "fs_throws e 280 = None"
  shows "persisted_record e (world_of (catch_block e s)) =
           Some (stringify_metadata
             ((testMetadata s)\<lparr>status := ''failed'', endTime := Some (now_end e), error := Some msg\<rparr>))"
    and "containers (catch_block e s) = containers s"
  using assms
  by (simp_all add: catch_block_def write_metadata_ok persisted_record_def world_of_def
      writeFile_def update_conv')

lemma tried_valid:
  assumes "req_scriptContent r = Some scriptContent" "req_operatingSystem r = Some os"
  shows "tried e r w =
     run_steps (before_await e os (req_customImage r) (scriptFileName (req_scriptType r) os) @
                after_await e)
       (run_steps (prepare e scriptContent (scriptFileName (req_scriptType r) os))
          (start_state e (req_scriptId r) os (req_customImage r) w))"
  using assms by (simp add: tried_def Let_def)

lemma runTest_accepted:
  assumes "valid r" and "fs_succeeds e [63, 64, 69, 70, 84]"
  shows "response_code (response (runTest e r w)) = 202"
    and "settled (runTest e r w) = world_of (catch_block e (tried e r w))"
proof -
  from assms(1) obtain scriptContent os where r: "req_scriptContent r = Some scriptContent"
      "scriptContent \<noteq> []" "req_operatingSystem r = Some os" "os \<noteq> []"
    by (rule valid_cases)
  let ?fileName = "scriptFileName (req_scriptType r) os"
  let ?s0 = "run_steps (prepare e scriptContent ?fileName)
    (start_state e (req_scriptId r) os (req_customImage r) w)"
  have t0: "thrown ?s0 = None" using assms(2) by (rule prepare_ok_thrown)
  show "response_code (response (runTest e r w)) = 202"
    unfolding runTest_valid [OF r] accepted_def Let_def using t0
    by (simp add: response_code_def)
  show "settled (runTest e r w) = world_of (catch_block e (tried e r w))"
    unfolding runTest_valid [OF r] accepted_def Let_def tried_valid [OF r(1,3)] using t0
    by (simp add: background_def)
qed

lemma run_steps_first_throws:
  "guarded f s = s' \<Longrightarrow> thrown s' = Some msg \<Longrightarrow> run_steps (f # fs) s = s'"
  by (simp add: run_steps_Cons run_steps_thrown)

lemma tried_start_fails:
  assumes "valid r" and "fs_succeeds e [63, 64, 69, 70, 84, 135, 162, 163, 182]"
    and "createContainer e = Inr cid" and "container_start e = Some msg"
  shows "thrown (tried e r w) = Some msg"
    and "containerId (testMetadata (tried e r w)) = Some cid"
proof -
  from assms(1) obtain scriptContent os where r: "req_scriptContent r = Some scriptContent"
      "scriptContent \<noteq> []" "req_operatingSystem r = Some os" "os \<noteq> []"
    by (rule valid_cases)
  from assms(2) have p: "fs_succeeds e [63, 64, 69, 70, 84]" and b: "fs_succeeds e [135, 162, 163]"
    and c: "fs_throws e 182 = None"
    by (simp_all add: fs_succeeds_Cons)
  let ?fileName = "scriptFileName (req_scriptType r) os"
  let ?s0 = "run_steps (prepare e scriptContent ?fileName)
    (start_state e (req_scriptId r) os (req_customImage r) w)"
  let ?s1 = "run_steps (before_await e os (req_customImage r) ?fileName) ?s0"
  have t0: "thrown ?s0 = None" using p by (rule prepare_ok_thrown)
  note s1 = before_await_ok [OF b t0, of os "req_customImage r" ?fileName]
  define s2 where "s2 = guarded (write_metadata e 182) (guarded (create_container e) ?s1)"
  have s2: "thrown s2 = None" "containerId (testMetadata s2) = Some cid"
    unfolding s2_def using s1(1) assms(3) c
    by (simp_all add: guarded_ok create_container_def write_metadata_ok)
  have g: "guarded (start_container e) s2 = s2\<lparr>thrown := Some msg\<rparr>"
    using s2(1) assms(4) by (simp add: guarded_ok start_container_def)
  have "run_steps (after_await e) ?s1 =
      run_steps [start_container e, attach_stream e, wait_container e, fetch_logs e, save_logs e,
        read_script_output e, classify e, write_metadata e 255, write_results e,
        remove_container e] s2"
    unfolding after_await_def s2_def by (simp only: run_steps_Cons)
  also have "\<dots> = s2\<lparr>thrown := Some msg\<rparr>"
    by (rule run_steps_first_throws [OF g]) simp
  finally have "tried e r w = s2\<lparr>thrown := Some msg\<rparr>"
    unfolding tried_valid [OF r(1,3)] run_steps_append by simp
  then show "thrown (tried e r w) = Some msg"
    and "containerId (testMetadata (tried e r w)) = Some cid"
    using s2(2) by simp_all
qed

lemma paths:
  "metadataPath e = testDir e @ [''metadata.json'']"
  "resultsPath e = testDir e @ [''results.json'']"
  "entrypointPath e = testDir e @ [''entrypoint.sh'']"
  "containerLogPath e = testDir e @ [''output'', ''container_logs.txt'']"
  "outputLogPath e = testDir e @ [''output'', ''script_output.log'']"
  by (simp_all add: metadataPath_def resultsPath_def entrypointPath_def containerLogPath_def
      outputLogPath_def path_join_name)

lemma existsSync_writeFile:
  "existsSync (writeFile p c fs) q \<longleftrightarrow> q = p \<or> existsSync fs q"
  by (auto simp: existsSync_def writeFile_def update_conv')

lemma existsSync_ensureDir:
  "existsSync (ensureDir p fs) q \<longleftrightarrow> q = p \<or> existsSync fs q"
  by (auto simp: existsSync_def ensureDir_def update_conv')

lemma map_of_writeFile:
  "map_of (writeFile p c fs) q = (if q = p then Some (File c) else map_of fs q)"
  by (simp add: writeFile_def update_conv')

text \<open>The state after the statements before the classification, when all of them succeed.\<close>

lemma classify_input:
  assumes ok: "fs_succeeds e [182, 234, 240, 255, 256]"
    and docker: "createContainer e = Inr cid" "container_start e = None"
      "container_attach e = Inr chunks" "container_wait e = Inr code"
      "concat chunks = [] \<longrightarrow> container_logs e = Inr fetched"
    and s: "thrown s = None"
    and input: "input =
      (case script_output_log e of
         Some text \<Rightarrow> text
       | None \<Rightarrow> if concat chunks \<noteq> [] then concat chunks else fetched)"
    and absent: "script_output_log e = None \<longrightarrow> \<not> existsSync (files s) (outputLogPath e)"
  shows "thrown (run_steps (after_await e) s) = None \<and>
    persisted_results e (world_of (run_steps (after_await e) s)) =
      Some (stringify_results (parseTestOutput input))"
proof -
  define s3 where "s3 = guarded (start_container e) (guarded (write_metadata e 182)
    (guarded (create_container e) s))"
  have s3: "thrown s3 = None"
    "files s3 = (case script_output_log e of
        Some text \<Rightarrow> writeFile (outputLogPath e) (Text text)
          (writeFile (metadataPath e)
             (Metadata (stringify_metadata ((testMetadata s)\<lparr>containerId := Some cid\<rparr>))) (files s))
      | None \<Rightarrow> writeFile (metadataPath e)
          (Metadata (stringify_metadata ((testMetadata s)\<lparr>containerId := Some cid\<rparr>))) (files s))"
    unfolding s3_def using ok docker s
    by (simp_all add: guarded_ok create_container_def write_metadata_ok start_container_def
        fs_succeeds_Cons split: option.splits)
  define s7 where "s7 = guarded (save_logs e) (guarded (fetch_logs e)
    (guarded (wait_container e) (guarded (attach_stream e) s3)))"
  have s7: "thrown s7 = None"
    "logs s7 = (if concat chunks \<noteq> [] then concat chunks else fetched)"
    "files s7 = writeFile (containerLogPath e) (Text (logs s7)) (files s3)"
    unfolding s7_def using ok docker s3(1)
    by (simp_all add: guarded_ok attach_stream_def wait_container_def fetch_logs_def
        save_logs_def fs_call_ok fs_succeeds_Cons)
  define s8 where "s8 = guarded (read_script_output e) s7"
  have s8: "thrown s8 = None" "scriptOutput s8 = input" "files s8 = files s7"
    unfolding s8_def using ok s7(1,2) absent input
    by (auto simp: guarded_ok read_script_output_def fs_succeeds_Cons s7(3) s3(2)
        existsSync_writeFile map_of_writeFile paths split: option.splits)
  define s11 where "s11 = guarded (remove_container e) (guarded (write_results e)
    (guarded (write_metadata e 255) (guarded (classify e) s8)))"
  have s11: "thrown s11 = None"
    "map_of (files s11) (resultsPath e) =
       Some (File (Results (stringify_results (parseTestOutput input))))"
    unfolding s11_def using ok s8(1,2)
    by (simp_all add: guarded_ok classify_def Let_def write_metadata_ok write_results_def
        fs_call_ok fs_succeeds_Cons remove_container_def map_of_writeFile
        split: option.splits)
  have "run_steps (after_await e) s = s11"
    unfolding after_await_def s11_def s8_def s7_def s3_def
    by (simp only: run_steps_Cons run_steps_Nil)
  with s11 show ?thesis by (simp add: persisted_results_def world_of_def)
qed

lemma exists_before_await:
  assumes "fs_succeeds e [63, 64, 69, 70, 84, 135, 162, 163]"
    and "\<not> existsSync (files w) (outputLogPath e)"
    and "path_join (testDir e) fileName \<noteq> outputLogPath e"
  shows "\<not> existsSync
    (files (run_steps (before_await e os customImage fileName)
       (run_steps (prepare e scriptContent fileName) (start_state e sid os customImage w))))
    (outputLogPath e)"
proof -
  from assms(1) have p: "fs_succeeds e [63, 64, 69, 70, 84]" and b: "fs_succeeds e [135, 162, 163]"
    by (simp_all add: fs_succeeds_Cons)
  show ?thesis
    unfolding prepare_ok [OF p]
    using b assms(2,3)
    by (simp add: before_await_def write_entrypoint_def run_steps_Cons run_steps_Nil guarded_ok
        fs_call_ok write_metadata_ok fs_succeeds_Cons resolve_image_def start_state_def
        existsSync_writeFile existsSync_ensureDir paths path_join_name)
qed

text \<open>
  Claim C3, as the code has it. When every statement up to the writing of the verdict
  succeeds, the text that is classified is the content of \<^verbatim>\<open>output/script_output.log\<close>
  whenever the container has written that file, empty or not; when it has not, and no
  such file is there, it is what the stream delivered, or, when the stream delivered
  nothing, the logs fetched from the container. The file \<^verbatim>\<open>results.json\<close> holds the verdict
  of that text, whose field \<^verbatim>\<open>fullOutput\<close> is the text.
\<close>

theorem classifier_input:
  assumes "valid r"
    and "fs_succeeds e [63, 64, 69, 70, 84, 135, 162, 163, 182, 234, 240, 255, 256]"
    and "createContainer e = Inr cid" and "container_start e = None"
    and "container_attach e = Inr chunks" and "container_wait e = Inr code"
    and "concat chunks = [] \<longrightarrow> container_logs e = Inr fetched"
  shows "(\<forall>written. script_output_log e = Some written \<longrightarrow>
            persisted_results e (settled (runTest e r w)) =
              Some (stringify_results (parseTestOutput written))) \<and>
         (script_output_log e = None \<and> \<not> existsSync (files w) (outputLogPath e) \<and>
          scriptPath e r \<noteq> outputLogPath e \<longrightarrow>
            persisted_results e (settled (runTest e r w)) =
              Some (stringify_results
                (parseTestOutput (if concat chunks \<noteq> [] then concat chunks else fetched))))"
proof -
  from assms(1) obtain scriptContent os where r: "req_scriptContent r = Some scriptContent"
      "scriptContent \<noteq> []" "req_operatingSystem r = Some os" "os \<noteq> []"
    by (rule valid_cases)
  from assms(2) have p: "fs_succeeds e [63, 64, 69, 70, 84]" and b: "fs_succeeds e [135, 162, 163]"
    and pb: "fs_succeeds e [63, 64, 69, 70, 84, 135, 162, 163]"
    and a: "fs_succeeds e [182, 234, 240, 255, 256]"
    by (simp_all add: fs_succeeds_Cons)
  let ?fileName = "scriptFileName (req_scriptType r) os"
  let ?s0 = "run_steps (prepare e scriptContent ?fileName)
    (start_state e (req_scriptId r) os (req_customImage r) w)"
  let ?s1 = "run_steps (before_await e os (req_customImage r) ?fileName) ?s0"
  have t0: "thrown ?s0 = None" using p by (rule prepare_ok_thrown)
  note s1 = before_await_ok [OF b t0, of os "req_customImage r" ?fileName]
  have tried: "tried e r w = run_steps (after_await e) ?s1"
    unfolding tried_valid [OF r(1,3)] run_steps_append by (rule refl)
  have settled: "thrown (tried e r w) = None \<Longrightarrow> settled (runTest e r w) = world_of (tried e r w)"
    using runTest_accepted(2) [OF assms(1) p, of w] by (simp add: catch_block_def)
  have sp: "scriptPath e r = path_join (testDir e) ?fileName"
    using r(3) by (simp add: scriptPath_def)
  show ?thesis
  proof (intro conjI allI impI)
    fix written
    assume log: "script_output_log e = Some written"
    have "thrown (tried e r w) = None \<and>
        persisted_results e (world_of (tried e r w)) =
          Some (stringify_results (parseTestOutput written))"
      unfolding tried
      by (rule classify_input [OF a assms(3-7) s1(1)]) (simp_all add: log)
    then show "persisted_results e (settled (runTest e r w)) =
        Some (stringify_results (parseTestOutput written))"
      using settled by simp
  next
    assume h: "script_output_log e = None \<and> \<not> existsSync (files w) (outputLogPath e) \<and>
      scriptPath e r \<noteq> outputLogPath e"
    then have absent: "\<not> existsSync (files ?s1) (outputLogPath e)"
      using exists_before_await [OF pb, of w ?fileName os "req_customImage r" scriptContent
          "req_scriptId r"] sp
      by simp
    have "thrown (tried e r w) = None \<and>
        persisted_results e (world_of (tried e r w)) =
          Some (stringify_results
            (parseTestOutput (if concat chunks \<noteq> [] then concat chunks else fetched)))"
      unfolding tried
      by (rule classify_input [OF a assms(3-7) s1(1)]) (use h absent in simp_all)
    then show "persisted_results e (settled (runTest e r w)) =
        Some (stringify_results
          (parseTestOutput (if concat chunks \<noteq> [] then concat chunks else fetched)))"
      using settled by simp
  qed
qed

theorem classifier_input_witness:
  "valid example_request \<and>
   fs_succeeds example_env [63, 64, 69, 70, 84, 135, 162, 163, 182, 234, 240, 255, 256] \<and>
   script_output_log example_env = Some [] \<and>
   persisted_results example_env (settled (runTest example_env example_request example_world)) =
     Some (parseTestOutput []) \<and>
   script_output_log (example_env\<lparr>script_output_log := None\<rparr>) = None \<and>
   persisted_results (example_env\<lparr>script_output_log := None\<rparr>)
     (settled (runTest (example_env\<lparr>script_output_log := None\<rparr>) example_request example_world)) =
     Some (parseTestOutput ''=== Exit code: 0 ==='')"
proof -
  let ?e = "example_env\<lparr>script_output_log := None\<rparr>"
  have v: "valid example_request"
    by (simp add: valid_def falsy_def example_request_def)
  have f: "fs_succeeds example_env [63, 64, 69, 70, 84, 135, 162, 163, 182, 234, 240, 255, 256]"
    "fs_succeeds ?e [63, 64, 69, 70, 84, 135, 162, 163, 182, 234, 240, 255, 256]"
    by (simp_all add: fs_succeeds_def example_env_def)
  have d: "createContainer example_env = Inr ''c0ffee''" "container_start example_env = None"
    "container_attach example_env = Inr [''=== Exit code: 0 ==='']"
    "container_wait example_env = Inr 0"
    "concat [''=== Exit code: 0 ===''] = [] \<longrightarrow> container_logs example_env = Inr []"
    "script_output_log example_env = Some []"
    by (simp_all add: example_env_def)
  have d': "createContainer ?e = Inr ''c0ffee''" "container_start ?e = None"
    "container_attach ?e = Inr [''=== Exit code: 0 ==='']"
    "container_wait ?e = Inr 0"
    "concat [''=== Exit code: 0 ===''] = [] \<longrightarrow> container_logs ?e = Inr []"
    "script_output_log ?e = None"
    by (simp_all add: example_env_def)
  have absent: "\<not> existsSync (files example_world) (outputLogPath ?e)"
    "scriptPath ?e example_request \<noteq> outputLogPath ?e"
    by code_simp+
  have j: "stringify_results (parseTestOutput []) = parseTestOutput []"
    "stringify_results (parseTestOutput ''=== Exit code: 0 ==='') =
       parseTestOutput ''=== Exit code: 0 ===''"
    by code_simp+
  from classifier_input [OF v f(1) d(1-5), of example_world]
    classifier_input [OF v f(2) d'(1-5), of example_world] d(6) d'(6) absent v f(1) j
  show ?thesis by simp
qed

text \<open>
  With an empty log file and the marker on the stream, the empty text is classified, not
  the text of the stream.
\<close>

theorem empty_log_counterexample:
  "script_output_log example_env = Some [] \<and>
   container_attach example_env = Inr [''=== Exit code: 0 ===''] \<and>
   persisted_results example_env (settled (runTest example_env example_request example_world)) =
     Some (parseTestOutput []) \<and>
   parseTestOutput [] \<noteq> parseTestOutput ''=== Exit code: 0 ===''"
  by code_simp

text \<open>
  The \<^verbatim>\<open>try\<close> block of the background function, stage by stage. A stage throws what the
  first of its calls that throws does; a stage that has thrown ends the block.
\<close>

lemma first_error_append:
  "first_error (xs @ ys) = (case first_error xs of None \<Rightarrow> first_error ys | Some msg \<Rightarrow> Some msg)"
  by (induction xs rule: first_error.induct) simp_all

lemma thrown_stage:
  assumes "thrown (run_steps fs s) = first_error xs"
    and "thrown (run_steps fs s) = None \<Longrightarrow>
           thrown (run_steps gs (run_steps fs s)) = first_error ys"
  shows "thrown (run_steps (fs @ gs) s) = first_error (xs @ ys)"
proof (cases "thrown (run_steps fs s)")
  case None
  with assms show ?thesis by (simp add: run_steps_append first_error_append)
next
  case (Some msg)
  then have "run_steps gs (run_steps fs s) = run_steps fs s" by (rule run_steps_thrown)
  with Some assms(1) show ?thesis by (simp add: run_steps_append first_error_append)
qed

lemma map_of_ensureDir:
  "map_of (ensureDir p fs) q = (if q = p \<and> map_of fs p = None then Some Directory else map_of fs q)"
  by (simp add: ensureDir_def existsSync_def update_conv')

text \<open>Lines 97 to 164: the image and the entrypoint, up to the first \<^verbatim>\<open>await\<close>.\<close>

lemma before_await_stage:
  assumes "thrown s = None"
  shows "thrown (run_steps (before_await e os customImage fileName) s) =
           first_error ([fs_throws e 135] @
             (if isWindows os then [] else [fs_throws e 162, fs_throws e 163]))"
    and "testMetadata (run_steps (before_await e os customImage fileName) s) =
           (testMetadata s)\<lparr>containerImage := Some (dockerImage os customImage)\<rparr>"
    and "containers (run_steps (before_await e os customImage fileName) s) = containers s"
    and "thrown (run_steps (before_await e os customImage fileName) s) = None \<Longrightarrow>
           map_of (files (run_steps (before_await e os customImage fileName) s)) (outputLogPath e) =
           map_of (files s) (outputLogPath e)"
  using assms
  by (auto simp: before_await_def write_entrypoint_def run_steps_Cons run_steps_Nil guarded_def
      fs_call_def write_metadata_def resolve_image_def map_of_writeFile paths
      split: option.splits)

text \<open>Lines 180 to 192: the container is created and started.\<close>

lemma create_start_stage:
  assumes "thrown s = None"
  shows "thrown (run_steps [create_container e, write_metadata e 182, start_container e] s) =
           first_error [failure (createContainer e), fs_throws e 182, container_start e]"
    and "testMetadata (run_steps [create_container e, write_metadata e 182, start_container e] s) =
           (case createContainer e of
              Inl msg \<Rightarrow> testMetadata s
            | Inr cid \<Rightarrow> (testMetadata s)\<lparr>containerId := Some cid\<rparr>)"
    and "createContainer e = Inl msg \<Longrightarrow>
           containers (run_steps [create_container e, write_metadata e 182, start_container e] s) =
           containers s"
    and "thrown (run_steps [create_container e, write_metadata e 182, start_container e] s) = None \<Longrightarrow>
           map_of (files (run_steps [create_container e, write_metadata e 182, start_container e] s))
             (outputLogPath e) =
           (case script_output_log e of
              Some written \<Rightarrow> Some (File (Text written))
            | None \<Rightarrow> map_of (files s) (outputLogPath e))"
  using assms
  by (auto simp: run_steps_Cons run_steps_Nil guarded_def create_container_def
      fs_call_def write_metadata_def start_container_def failure_def map_of_writeFile paths
      split: option.splits sum.splits)

text \<open>Lines 201 to 234: the stream, the exit of the container and its logs.\<close>

lemma collect_logs_stage:
  assumes "thrown s = None"
  shows "thrown (run_steps [attach_stream e, wait_container e, fetch_logs e, save_logs e] s) =
           first_error ([failure (container_attach e), failure (container_wait e)] @
             (case container_attach e of
                Inl msg \<Rightarrow> []
              | Inr chunks \<Rightarrow> if concat chunks = [] then [failure (container_logs e)] else []) @
             [fs_throws e 234])"
    and "testMetadata (run_steps [attach_stream e, wait_container e, fetch_logs e, save_logs e] s) =
           testMetadata s"
    and "thrown (run_steps [attach_stream e, wait_container e, fetch_logs e, save_logs e] s) = None \<Longrightarrow>
           map_of (files (run_steps [attach_stream e, wait_container e, fetch_logs e, save_logs e] s))
             (outputLogPath e) = map_of (files s) (outputLogPath e)"
  using assms
  by (auto simp: run_steps_Cons run_steps_Nil guarded_def attach_stream_def wait_container_def
      fetch_logs_def save_logs_def fs_call_def failure_def map_of_writeFile paths
      split: option.splits sum.splits)

text \<open>Lines 237 to 243: the log file, if there is one.\<close>

lemma read_stage:
  assumes "thrown s = None"
  shows "thrown (run_steps [read_script_output e] s) =
           first_error
             (case map_of (files s) (outputLogPath e) of
                None \<Rightarrow> []
              | Some (File (Text written)) \<Rightarrow> [fs_throws e 240]
              | Some other \<Rightarrow>
                  [fs_throws e 240, Some ''EISDIR: illegal operation on a directory, read''])"
    and "testMetadata (run_steps [read_script_output e] s) = testMetadata s"
    and "files (run_steps [read_script_output e] s) = files s"
  using assms
  by (auto simp: run_steps_Cons run_steps_Nil guarded_def read_script_output_def existsSync_def
      split: option.splits node.splits content.splits)

text \<open>Lines 246 to 263: the verdict, the record and the removal of the container.\<close>

lemma verdict_stage:
  assumes "thrown s = None"
  shows "thrown (run_steps [classify e, write_metadata e 255, write_results e, remove_container e] s) =
           first_error [fs_throws e 255, fs_throws e 256]"
    and "thrown (run_steps [classify e, write_metadata e 255, write_results e, remove_container e] s) = None \<Longrightarrow>
           \<exists>m. map_of (files (run_steps
                  [classify e, write_metadata e 255, write_results e, remove_container e] s))
                  (metadataPath e) = Some (File (Metadata m)) \<and>
               status m = ''completed'' \<and> error m = error (testMetadata s) \<and>
               endTime m = Some (now_end e) \<and> containerId m = containerId (testMetadata s)"
  using assms
  by (auto simp: run_steps_Cons run_steps_Nil guarded_def classify_def Let_def write_results_def
      remove_container_def fs_call_def write_metadata_def map_of_writeFile paths
      stringify_metadata_fields
      split: option.splits)

lemma after_await_stages:
  "after_await e =
     [create_container e, write_metadata e 182, start_container e] @
     [attach_stream e, wait_container e, fetch_logs e, save_logs e] @
     [read_script_output e] @
     [classify e, write_metadata e 255, write_results e, remove_container e]"
  by (simp add: after_await_def)

lemma thrown_append_None:
  assumes "thrown (run_steps (fs @ gs) s) = None"
  shows "thrown (run_steps fs s) = None"
proof (cases "thrown (run_steps fs s)")
  case None
  then show ?thesis .
next
  case (Some msg)
  then have "run_steps gs (run_steps fs s) = run_steps fs s" by (rule run_steps_thrown)
  with assms Some show ?thesis by (simp add: run_steps_append)
qed

text \<open>What is at the path of the log file once the run directory is prepared.\<close>

lemma log_file_prepared:
  assumes "fs_succeeds e [63, 64, 69, 70, 84]"
    and "req_scriptContent r = Some scriptContent" and "req_operatingSystem r = Some os"
  shows "map_of (files (run_steps (prepare e scriptContent (scriptFileName (req_scriptType r) os))
             (start_state e sid os customImage w))) (outputLogPath e) =
           (if scriptPath e r = outputLogPath e then Some (File (Text scriptContent))
            else map_of (files w) (outputLogPath e))"
  unfolding prepare_ok [OF assms(1)]
  by (simp add: map_of_writeFile map_of_ensureDir paths path_join_name scriptPath_def assms(2,3)
      start_state_def)

text \<open>
  What the \<^verbatim>\<open>try\<close> block throws is the first error of its calls; when no call throws, the
  record is written as \<^verbatim>\<open>completed\<close>; when the creation of the container fails, or is not
  reached, the record has no container id and no container has been added.
\<close>

lemma tried_stages:
  assumes "valid r" and "fs_succeeds e [63, 64, 69, 70, 84]"
  shows "thrown (tried e r w) = first_error (lifecycle_calls e r w)"
    and "first_error (lifecycle_calls e r w) = None \<Longrightarrow>
           \<exists>m. persisted_record e (world_of (tried e r w)) = Some m \<and>
               status m = ''completed'' \<and> error m = None \<and> endTime m = Some (now_end e)"
    and "createContainer e = Inl msg \<Longrightarrow>
           thrown (tried e r w) \<noteq> None \<and> containerId (testMetadata (tried e r w)) = None \<and>
           containers (tried e r w) = containers w"
proof -
  from assms(1) obtain scriptContent os where r: "req_scriptContent r = Some scriptContent"
      "scriptContent \<noteq> []" "req_operatingSystem r = Some os" "os \<noteq> []"
    by (rule valid_cases)
  let ?fileName = "scriptFileName (req_scriptType r) os"
  let ?s0 = "run_steps (prepare e scriptContent ?fileName)
    (start_state e (req_scriptId r) os (req_customImage r) w)"
  let ?A = "before_await e os (req_customImage r) ?fileName"
  let ?B = "[create_container e, write_metadata e 182, start_container e]"
  let ?C = "[attach_stream e, wait_container e, fetch_logs e, save_logs e]"
  let ?D = "[read_script_output e]"
  let ?E = "[classify e, write_metadata e 255, write_results e, remove_container e]"
  let ?cA = "[fs_throws e 135] @ (if isWindows os then [] else [fs_throws e 162, fs_throws e 163])"
  let ?cB = "[failure (createContainer e), fs_throws e 182, container_start e]"
  let ?cC = "[failure (container_attach e), failure (container_wait e)] @
     (case container_attach e of
        Inl msg \<Rightarrow> []
      | Inr chunks \<Rightarrow> if concat chunks = [] then [failure (container_logs e)] else []) @
     [fs_throws e 234]"
  let ?cD = "case log_file e r w of
        None \<Rightarrow> []
      | Some (File (Text written)) \<Rightarrow> [fs_throws e 240]
      | Some other \<Rightarrow>
          [fs_throws e 240, Some ''EISDIR: illegal operation on a directory, read'']"
  let ?cE = "[fs_throws e 255, fs_throws e 256]"
  define sA where "sA = run_steps ?A ?s0"
  define sB where "sB = run_steps ?B sA"
  define sC where "sC = run_steps ?C sB"
  define sD where "sD = run_steps ?D sC"
  have t0: "thrown ?s0 = None" using assms(2) by (rule prepare_ok_thrown)
  have m0: "testMetadata ?s0 = testMetadata (start_state e (req_scriptId r) os (req_customImage r) w)"
    unfolding prepare_ok [OF assms(2)] by simp
  have AB: "run_steps (?A @ ?B) ?s0 = sB"
    and ABC: "run_steps ((?A @ ?B) @ ?C) ?s0 = sC"
    and ABCD: "run_steps (((?A @ ?B) @ ?C) @ ?D) ?s0 = sD"
    by (simp_all only: run_steps_append sA_def sB_def sC_def sD_def)
  have tried: "tried e r w = run_steps ((((?A @ ?B) @ ?C) @ ?D) @ ?E) ?s0"
    unfolding tried_valid [OF r(1,3)] after_await_stages by (simp only: append_assoc)
  have 1: "thrown (run_steps ?A ?s0) = first_error ?cA"
    by (rule before_await_stage(1) [OF t0])
  have 2: "thrown (run_steps (?A @ ?B) ?s0) = first_error (?cA @ ?cB)"
    by (rule thrown_stage [OF 1]) (rule create_start_stage(1))
  have 3: "thrown (run_steps ((?A @ ?B) @ ?C) ?s0) = first_error ((?cA @ ?cB) @ ?cC)"
    by (rule thrown_stage [OF 2]) (rule collect_logs_stage(1))
  have log: "map_of (files sC) (outputLogPath e) = log_file e r w" if ok: "thrown sC = None"
  proof -
    from ok have tB: "thrown sB = None"
      unfolding ABC [symmetric] AB [symmetric] by (rule thrown_append_None)
    then have tA: "thrown sA = None"
      unfolding AB [symmetric] sA_def by (rule thrown_append_None)
    have "map_of (files sC) (outputLogPath e) = map_of (files sB) (outputLogPath e)"
      unfolding sC_def using ok by (intro collect_logs_stage(3) [OF tB]) (simp add: sC_def)
    also have "\<dots> = (case script_output_log e of
          Some written \<Rightarrow> Some (File (Text written))
        | None \<Rightarrow> map_of (files sA) (outputLogPath e))"
      unfolding sB_def using tB by (intro create_start_stage(4) [OF tA]) (simp add: sB_def)
    also have "map_of (files sA) (outputLogPath e) = map_of (files ?s0) (outputLogPath e)"
      unfolding sA_def using tA by (intro before_await_stage(4) [OF t0]) (simp add: sA_def)
    also have "\<dots> = (if scriptPath e r = outputLogPath e then Some (File (Text scriptContent))
        else map_of (files w) (outputLogPath e))"
      by (rule log_file_prepared [OF assms(2) r(1,3)])
    finally show ?thesis by (simp add: log_file_def r(1) split: option.splits)
  qed
  have 4: "thrown (run_steps (((?A @ ?B) @ ?C) @ ?D) ?s0) = first_error (((?cA @ ?cB) @ ?cC) @ ?cD)"
  proof (rule thrown_stage [OF 3])
    assume "thrown (run_steps ((?A @ ?B) @ ?C) ?s0) = None"
    then have ok: "thrown sC = None" by (simp only: ABC)
    show "thrown (run_steps ?D (run_steps ((?A @ ?B) @ ?C) ?s0)) = first_error ?cD"
      unfolding ABC read_stage(1) [OF ok] log [OF ok] by (rule refl)
  qed
  have 5: "thrown (run_steps ((((?A @ ?B) @ ?C) @ ?D) @ ?E) ?s0) =
      first_error ((((?cA @ ?cB) @ ?cC) @ ?cD) @ ?cE)"
    by (rule thrown_stage [OF 4]) (rule verdict_stage(1))
  have calls: "lifecycle_calls e r w = (((?cA @ ?cB) @ ?cC) @ ?cD) @ ?cE"
    by (simp add: lifecycle_calls_def r(3))
  show thrown: "thrown (tried e r w) = first_error (lifecycle_calls e r w)"
    unfolding tried calls by (rule 5)
  have mA: "testMetadata sA =
      (testMetadata ?s0)\<lparr>containerImage := Some (dockerImage os (req_customImage r))\<rparr>"
    unfolding sA_def by (rule before_await_stage(2) [OF t0])
  have e0: "error (testMetadata ?s0) = None" "containerId (testMetadata ?s0) = None"
    unfolding m0 by (simp_all add: start_state_def)
  {
    assume c: "createContainer e = Inl msg"
    have c0: "containers ?s0 = containers w"
      unfolding prepare_ok [OF assms(2)] by (simp add: start_state_def)
    have cA: "containers sA = containers w"
      unfolding sA_def before_await_stage(3) [OF t0] by (rule c0)
    have rest: "tried e r w = run_steps (?C @ ?D @ ?E) sB"
      unfolding tried by (simp only: run_steps_append sA_def sB_def)
    have "thrown (tried e r w) \<noteq> None \<and> testMetadata (tried e r w) = testMetadata sA \<and>
        containers (tried e r w) = containers sA"
    proof (cases "thrown sA")
      case None
      have "thrown sB \<noteq> None"
        unfolding sB_def create_start_stage(1) [OF None] by (simp add: c failure_def)
      then obtain msg' where tB: "thrown sB = Some msg'" by blast
      have "tried e r w = sB" unfolding rest using tB by (rule run_steps_thrown)
      moreover have "testMetadata sB = testMetadata sA"
        unfolding sB_def create_start_stage(2) [OF None] by (simp add: c)
      moreover have "containers sB = containers sA"
        unfolding sB_def by (rule create_start_stage(3) [OF None c])
      ultimately show ?thesis using tB by simp
    next
      case (Some msg')
      then have "sB = sA" unfolding sB_def by (rule run_steps_thrown)
      moreover from Some have "run_steps (?C @ ?D @ ?E) sA = sA" by (rule run_steps_thrown)
      ultimately have "tried e r w = sA" by (simp only: rest)
      with Some show ?thesis by simp
    qed
    then show "thrown (tried e r w) \<noteq> None \<and> containerId (testMetadata (tried e r w)) = None \<and>
        containers (tried e r w) = containers w"
      by (simp add: mA e0 cA)
  }
  assume "first_error (lifecycle_calls e r w) = None"
  with thrown have "thrown (run_steps ((((?A @ ?B) @ ?C) @ ?D) @ ?E) ?s0) = None"
    by (simp add: tried)
  then have tE: "thrown (run_steps ?E sD) = None"
    by (simp only: run_steps_append [of _ ?E] ABCD)
  then have tD: "thrown sD = None"
    using run_steps_thrown [of sD _ ?E] by (cases "thrown sD") simp_all
  then have tC: "thrown sC = None"
    unfolding ABCD [symmetric] ABC [symmetric] by (rule thrown_append_None)
  then have tB: "thrown sB = None"
    unfolding ABC [symmetric] AB [symmetric] by (rule thrown_append_None)
  then have tA: "thrown sA = None"
    unfolding AB [symmetric] sA_def by (rule thrown_append_None)
  have mD: "testMetadata sD = testMetadata sC"
    unfolding sD_def by (rule read_stage(2) [OF tC])
  have mC: "testMetadata sC = testMetadata sB"
    unfolding sC_def by (rule collect_logs_stage(2) [OF tB])
  have mB: "testMetadata sB =
      (case createContainer e of
         Inl msg \<Rightarrow> testMetadata sA
       | Inr cid \<Rightarrow> (testMetadata sA)\<lparr>containerId := Some cid\<rparr>)"
    unfolding sB_def by (rule create_start_stage(2) [OF tA])
  have "error (testMetadata sD) = None"
    by (simp add: mD mC mB mA e0 split: sum.splits)
  with verdict_stage(2) [OF tD tE] show
    "\<exists>m. persisted_record e (world_of (tried e r w)) = Some m \<and>
         status m = ''completed'' \<and> error m = None \<and> endTime m = Some (now_end e)"
    unfolding tried run_steps_append [of _ ?E] ABCD
    by (auto simp: persisted_record_def world_of_def)
qed

text \<open>
  Claim C5, as the code has it. Once the record of a run exists (the submission is valid
  and the calls up to the first write of the record succeed) the submitter is answered
  202 whatever happens afterwards. When a call of the \<^verbatim>\<open>try\<close> block of the background
  function throws (a write or read of the file system, the creation of the container, its
  start, the attaching of the stream, the wait for its exit, the fetch of its logs), the
  record that \<^verbatim>\<open>metadata.json\<close> holds in the end has status \<^verbatim>\<open>failed\<close>, the message of the first
  error and an end time, provided the write of that record (line 280) succeeds; when none
  throws, the record is \<^verbatim>\<open>completed\<close> and has no error, whatever the removal of the container
  does. When the creation of the container fails, or is not reached, the failed record
  has no container id and no container has been added; when its start fails, the record
  has the id of the container.
\<close>

theorem lifecycle_errors_become_failed_records:
  assumes "valid r" and "fs_succeeds e [63, 64, 69, 70, 84]" and "fs_throws e 280 = None"
  shows "response_code (response (runTest e r w)) = 202 \<and>
    (\<forall>msg. first_error (lifecycle_calls e r w) = Some msg \<longrightarrow>
       (\<exists>m. persisted_record e (settled (runTest e r w)) = Some m \<and>
            status m = ''failed'' \<and> error m = Some msg \<and> endTime m = Some (now_end e))) \<and>
    (first_error (lifecycle_calls e r w) = None \<longrightarrow>
       (\<exists>m. persisted_record e (settled (runTest e r w)) = Some m \<and>
            status m = ''completed'' \<and> error m = None \<and> endTime m = Some (now_end e))) \<and>
    (\<forall>msg. createContainer e = Inl msg \<longrightarrow>
       (\<exists>m. persisted_record e (settled (runTest e r w)) = Some m \<and>
            status m = ''failed'' \<and> containerId m = None) \<and>
       containers (settled (runTest e r w)) = containers w) \<and>
    (\<forall>msg cid. fs_succeeds e [135, 162, 163, 182] \<and> createContainer e = Inr cid \<and>
         container_start e = Some msg \<longrightarrow>
       (\<exists>m. persisted_record e (settled (runTest e r w)) = Some m \<and>
            status m = ''failed'' \<and> error m = Some msg \<and> endTime m = Some (now_end e) \<and>
            containerId m = Some cid))"
proof (intro conjI allI impI)
  note acc = runTest_accepted [OF assms(1,2), of w]
  note stages = tried_stages [OF assms(1,2), where w = w]
  show "response_code (response (runTest e r w)) = 202" by (rule acc(1))
  {
    fix msg
    assume "first_error (lifecycle_calls e r w) = Some msg"
    then have t: "thrown (tried e r w) = Some msg" by (simp add: stages(1))
    show "\<exists>m. persisted_record e (settled (runTest e r w)) = Some m \<and>
            status m = ''failed'' \<and> error m = Some msg \<and> endTime m = Some (now_end e)"
      unfolding acc(2) catch_block_failed(1) [OF t assms(3)]
      by (simp add: stringify_metadata_fields)
  }
  {
    assume n: "first_error (lifecycle_calls e r w) = None"
    then have "thrown (tried e r w) = None" by (simp add: stages(1))
    then have "catch_block e (tried e r w) = tried e r w" by (simp add: catch_block_def)
    with stages(2) [OF n]
    show "\<exists>m. persisted_record e (settled (runTest e r w)) = Some m \<and>
            status m = ''completed'' \<and> error m = None \<and> endTime m = Some (now_end e)"
      unfolding acc(2) by simp
  }
  {
    fix msg
    assume c: "createContainer e = Inl msg"
    from stages(3) [OF c] obtain msg' where t: "thrown (tried e r w) = Some msg'"
      "containerId (testMetadata (tried e r w)) = None" "containers (tried e r w) = containers w"
      by blast
    show "\<exists>m. persisted_record e (settled (runTest e r w)) = Some m \<and>
            status m = ''failed'' \<and> containerId m = None"
      unfolding acc(2) catch_block_failed(1) [OF t(1) assms(3)] using t(2)
      by (simp add: stringify_metadata_fields)
    show "containers (settled (runTest e r w)) = containers w"
      unfolding acc(2) using catch_block_failed(2) [OF t(1) assms(3)] t(3)
      by (simp add: world_of_def)
  }
  {
    fix msg cid
    assume a: "fs_succeeds e [135, 162, 163, 182] \<and> createContainer e = Inr cid \<and>
         container_start e = Some msg"
    with assms(2) have f: "fs_succeeds e [63, 64, 69, 70, 84, 135, 162, 163, 182]"
      by (simp add: fs_succeeds_Cons)
    from a have c: "createContainer e = Inr cid" "container_start e = Some msg" by simp_all
    note t = tried_start_fails [OF assms(1) f c, where w = w]
    show "\<exists>m. persisted_record e (settled (runTest e r w)) = Some m \<and>
            status m = ''failed'' \<and> error m = Some msg \<and> endTime m = Some (now_end e) \<and>
            containerId m = Some cid"
      unfolding acc(2) catch_block_failed(1) [OF t(1) assms(3)] using t(2)
      by (simp add: stringify_metadata_fields)
  }
qed

theorem lifecycle_errors_become_failed_records_witness:
  "valid example_request \<and>
   fs_succeeds (example_env\<lparr>createContainer := Inl ''no such image''\<rparr>) [63, 64, 69, 70, 84] \<and>
   fs_throws (example_env\<lparr>createContainer := Inl ''no such image''\<rparr>) 280 = None \<and>
   first_error (lifecycle_calls (example_env\<lparr>createContainer := Inl ''no such image''\<rparr>)
     example_request example_world) = Some ''no such image'' \<and>
   (\<exists>m. persisted_record (example_env\<lparr>createContainer := Inl ''no such image''\<rparr>)
          (settled (runTest (example_env\<lparr>createContainer := Inl ''no such image''\<rparr>)
             example_request example_world)) = Some m \<and>
        status m = ''failed'' \<and> error m = Some ''no such image'' \<and> endTime m = Some 2000 \<and>
        containerId m = None) \<and>
   fs_succeeds (example_env\<lparr>container_wait := Inl ''socket hang up''\<rparr>) [63, 64, 69, 70, 84] \<and>
   fs_throws (example_env\<lparr>container_wait := Inl ''socket hang up''\<rparr>) 280 = None \<and>
   first_error (lifecycle_calls (example_env\<lparr>container_wait := Inl ''socket hang up''\<rparr>)
     example_request example_world) = Some ''socket hang up'' \<and>
   (\<exists>m. persisted_record (example_env\<lparr>container_wait := Inl ''socket hang up''\<rparr>)
          (settled (runTest (example_env\<lparr>container_wait := Inl ''socket hang up''\<rparr>)
             example_request example_world)) = Some m \<and>
        status m = ''failed'' \<and> error m = Some ''socket hang up'' \<and> endTime m = Some 2000) \<and>
   first_error (lifecycle_calls example_env example_request example_world) = None \<and>
   (\<exists>m. persisted_record example_env
          (settled (runTest example_env example_request example_world)) = Some m \<and>
        status m = ''completed'' \<and> error m = None \<and> endTime m = Some 2000)"
proof -
  let ?e = "example_env\<lparr>createContainer := Inl ''no such image''\<rparr>"
  let ?e' = "example_env\<lparr>container_wait := Inl ''socket hang up''\<rparr>"
  have v: "valid example_request"
    by (simp add: valid_def falsy_def example_request_def)
  have f: "fs_succeeds ?e [63, 64, 69, 70, 84]"
    "fs_succeeds ?e' [63, 64, 69, 70, 84]" "fs_succeeds example_env [63, 64, 69, 70, 84]"
    by (simp_all add: fs_succeeds_def example_env_def)
  have g: "fs_throws ?e 280 = None" "createContainer ?e = Inl ''no such image''"
    "now_end ?e = 2000" "fs_throws ?e' 280 = None" "now_end ?e' = 2000"
    "fs_throws example_env 280 = None" "now_end example_env = 2000"
    by (simp_all add: example_env_def)
  have c: "first_error (lifecycle_calls ?e' example_request example_world) = Some ''socket hang up''"
    "first_error (lifecycle_calls example_env example_request example_world) = None"
    "first_error (lifecycle_calls ?e example_request example_world) = Some ''no such image''"
    by code_simp+
  have 1: "\<exists>m. persisted_record ?e (settled (runTest ?e example_request example_world)) = Some m \<and>
        status m = ''failed'' \<and> error m = Some ''no such image'' \<and> endTime m = Some 2000 \<and>
        containerId m = None"
    using lifecycle_errors_become_failed_records [OF v f(1) g(1), of example_world] c(3) g(2,3)
    by auto
  have 2: "\<exists>m. persisted_record ?e' (settled (runTest ?e' example_request example_world)) = Some m \<and>
        status m = ''failed'' \<and> error m = Some ''socket hang up'' \<and> endTime m = Some 2000"
    using lifecycle_errors_become_failed_records [OF v f(2) g(4), of example_world] c(1) g(5)
    by auto
  have 3: "\<exists>m. persisted_record example_env
          (settled (runTest example_env example_request example_world)) = Some m \<and>
        status m = ''completed'' \<and> error m = None \<and> endTime m = Some 2000"
    using lifecycle_errors_become_failed_records [OF v f(3) g(6), of example_world] c(2) g(7)
    by auto
  from v f(1) g(1) c(3) 1 f(2) g(4) c(1) 2 c(2) 3 show ?thesis by (intro conjI)
qed

text \<open>
  When the creation of the container fails and the write of the failed record throws as
  well, the disk being full by then, the record of the run is left as the last write that
  succeeded has it: \<^verbatim>\<open>running\<close>, without an error and without an end time.
\<close>

theorem unwritten_failure_counterexample:
  "valid example_request \<and>
   fs_succeeds
     (fs_failing 280 ''ENOSPC: no space left on device, write''
        (example_env\<lparr>createContainer := Inl ''no such image''\<rparr>))
     [63, 64, 69, 70, 84] \<and>
   first_error
     (lifecycle_calls
        (fs_failing 280 ''ENOSPC: no space left on device, write''
           (example_env\<lparr>createContainer := Inl ''no such image''\<rparr>))
        example_request example_world) = Some ''no such image'' \<and>
   persisted_record
     (fs_failing 280 ''ENOSPC: no space left on device, write''
        (example_env\<lparr>createContainer := Inl ''no such image''\<rparr>))
     (settled (runTest
        (fs_failing 280 ''ENOSPC: no space left on device, write''
           (example_env\<lparr>createContainer := Inl ''no such image''\<rparr>))
        example_request example_world)) =
     Some (\<lparr> test_id = ''123e4567-e89b-42d3-a456-426614174000'', scriptId = None,
       operatingSystem = ''ubuntu-22.04'', startTime = 1000, status = ''running'',
       containerName = ''autotool-test-123e4567'',
       containerImage = Some (ImageRef ''ubuntu:22.04''), containerId = None,
       endTime = None, meta_exitCode = None, meta_success = None, meta_errorCount = None,
       error = None \<rparr>)"
  by code_simp

subsection \<open>Listing the tests\<close>











end
